theory Spec2Isabelle
  imports Main "HOL-Library.Word"
begin

section \<open>Remote log-retrieval tasks (packages logsearch and logs)\<close>

text \<open>
  The theory embeds \<^verbatim>\<open>pkg/apiserver/logsearch/task.go\<close> and its older sibling
  \<^verbatim>\<open>pkg/apiserver/logs/task.go\<close>. A task dials one cluster component, opens a
  log-search stream, creates a zip archive with one entry, and copies every received
  message to the archive and the first few to a preview table of the store.

  Conventions of the embedding:
  \<^item> Everything outside the two files (gRPC, the filesystem, the zip writer, the store,
    the clock, the time formatter) is the environment. Each external call the code makes
    is appended to the \<open>trace\<close> of the world, in program order, and the error it
    returns is read from the oracle \<open>fails\<close> of the environment (\<open>None\<close> is Go's
    \<open>nil\<close>).
  \<^item> An error is the text of \<open>err.Error()\<close>.
  \<^item> The stream is the finite list of results that \<open>stream.Recv()\<close> delivers; when
    the list is used up the goroutine is blocked in \<open>Recv\<close> (\<open>Waiting\<close>).
  \<^item> The archive is kept by its logical content (entries and their lines); compression
    and buffering are left out.
  \<^item> \<open>defer\<close> is written out: on every return path the deferred calls registered so
    far run in reverse order of registration.
  \<^item> \<open>sync.Mutex\<close> is left out; one goroutine runs at a time.
\<close>

subsection \<open>Messages, components, task records\<close>

text \<open>\<open>diagnosticspb.LogMessage\<close>: \<open>Time\<close> is an \<open>int64\<close>, \<open>Level\<close> an enum over
  \<open>int32\<close> on which no arithmetic is done.\<close>

record LogMessage =
  Time :: "64 word"
  Level :: int
  Message :: string

text \<open>What \<open>stream.Recv()\<close> returns: a response with its messages, \<open>io.EOF\<close>, or another
  error.\<close>

datatype recv_result = RecvMessages "LogMessage list" | RecvEOF | RecvError string

text \<open>The search request is opaque to the task: it is only handed to \<open>SearchLog\<close>.\<close>

type_synonym SearchLogRequest = string

record Component =
  ServerType :: string
  IP :: string
  Port :: string
  StatusPort :: string

text \<open>Modelled from the spec: the type \<open>TaskState\<close> and its constants are declared
  outside the two files. The code names \<open>StateRunning\<close>, \<open>StateFinished\<close> and
  \<open>StateCanceled\<close>; \<open>StateQueued\<close> is the spec's name for the state of a task that
  \<open>NewTask\<close> has just built (the zero value).\<close>

datatype TaskState = StateQueued | StateRunning | StateFinished | StateCanceled

record TaskModel =
  Component :: Component
  Request :: SearchLogRequest
  TaskGroupID :: string
  TaskID :: string
  CreateTime :: int
  StartTime :: int
  StopTime :: int
  State :: TaskState
  SavedPath :: string
  Error :: string

text \<open>\<open>type Task struct { *TaskModel; mu; cancel; doneCh }\<close>: the embedded record's
  fields are promoted, as in Go. \<open>cancel\<close> and \<open>doneCh\<close> say whether the field is
  non-nil.\<close>

record Task = TaskModel +
  cancel :: bool
  doneCh :: bool

subsection \<open>The environment\<close>

text \<open>The external calls, with their arguments. Calls that can occur more than once in a
  run carry their occurrence number, so that the oracle can answer each occurrence
  differently.\<close>

datatype call =
    GrpcDial string
  | SearchLog SearchLogRequest
  | ConnClose
  | OsMkdirAll string
  | OsCreate string
  | ZwCreate string string
  | WriterWrite nat string
  | ZwFlush nat
  | ZwClose string
  | FClose string
  | OsRemoveAll string
  | StreamRecv nat
  | DbDeleteTask TaskModel
  | DbCreateTask TaskModel
  | DbUpdateTask TaskModel
  | DbCleanPreview string
  | DbNewPreview nat string LogMessage
  | DbStartTask string string string
  | DbInsertLineToPreview nat string LogMessage
  | DbCancelTask string
  | DbFinishTask string

text \<open>\<open>time_Format ns\<close> stands for
  \<open>time.Unix(0, ns).Format(sysutil.TimeStampLayout)\<close> and \<open>LogLevel_name\<close> for the table
  \<open>diagnosticspb.LogLevel_name\<close>; both come from other repositories. \<open>now_start\<close> and
  \<open>now_stop\<close> are the two readings of \<open>time.Now().Unix()\<close>; \<open>logsSavePath\<close> is the
  package variable of logsearch and \<open>TempDir\<close> the value of \<open>os.TempDir()\<close>.\<close>

record env =
  fails :: "call \<Rightarrow> string option"
  stream :: "recv_result list"
  now_start :: int
  now_stop :: int
  logsSavePath :: string
  TempDir :: string
  time_Format :: "int \<Rightarrow> string"
  LogLevel_name :: "int \<Rightarrow> string option"

text \<open>A file of the filesystem is a directory or a zip archive: its entries (name and
  lines written so far) and whether \<open>zw.Close()\<close> has written the central directory.\<close>

datatype fs_node = Dir | ZipFile "(string \<times> string list) list" bool

record world =
  fs :: "string \<Rightarrow> fs_node option"
  store_tasks :: "TaskModel list"
  store_previews :: "(string \<times> LogMessage) list"
  trace :: "call list"

definition called :: "call \<Rightarrow> world \<Rightarrow> world" where
  "called c w = w\<lparr>trace := trace w @ [c]\<rparr>"

subsection \<open>Library calls\<close>

text \<open>\<open>path.Join\<close> and \<open>path.Clean\<close> of the Go library. \<open>Join\<close> drops the leading
  empty elements, joins the rest with slashes and cleans the result; the empty string
  is returned when every element is empty.\<close>

fun join_slash :: "string list \<Rightarrow> string" where
  "join_slash [] = []"
| "join_slash [e] = e"
| "join_slash (e # es) = e @ ''/'' @ join_slash es"

text \<open>The backtracking of \<open>Clean\<close> on a \<open>..\<close> element, on the reversed output buffer:
  \<open>out.w--\<close>, then \<open>out.w--\<close> while \<open>out.w > dotdot\<close> and the byte just dropped is no
  slash.\<close>

fun backtrack :: "nat \<Rightarrow> string \<Rightarrow> string" where
  "backtrack dotdot [] = []"
| "backtrack dotdot (c # out) =
     (if dotdot < length out \<and> c \<noteq> CHR ''/'' then backtrack dotdot out else out)"

text \<open>The loop \<open>for r < n\<close> of \<open>Clean\<close> over the rest of the path: an empty element and a
  \<open>.\<close> element are skipped, a \<open>..\<close> element removes the last element of the output
  (or is kept at the front of a path that is not rooted, or dropped at the root), any
  other element is copied after a slash.\<close>

function Clean_loop :: "bool \<Rightarrow> string \<Rightarrow> string \<Rightarrow> nat \<Rightarrow> string" where
  "Clean_loop rooted [] out dotdot = out"
| "Clean_loop rooted (c # p) out dotdot =
     (if c = CHR ''/'' then Clean_loop rooted p out dotdot
      else if c = CHR ''.'' \<and> (p = [] \<or> hd p = CHR ''/'') then Clean_loop rooted p out dotdot
      else if c = CHR ''.'' \<and> p \<noteq> [] \<and> hd p = CHR ''.'' \<and> (tl p = [] \<or> hd (tl p) = CHR ''/'') then
        (if dotdot < length out then
           Clean_loop rooted (tl p) (rev (backtrack dotdot (rev out))) dotdot
         else if \<not> rooted then
           Clean_loop rooted (tl p) ((if out \<noteq> [] then out @ ''/'' else out) @ ''..'')
             (length ((if out \<noteq> [] then out @ ''/'' else out) @ ''..''))
         else Clean_loop rooted (tl p) out dotdot)
      else
        Clean_loop rooted (dropWhile (\<lambda>x. x \<noteq> CHR ''/'') p)
          ((if rooted \<and> length out \<noteq> 1 \<or> \<not> rooted \<and> out \<noteq> [] then out @ ''/'' else out) @
           c # takeWhile (\<lambda>x. x \<noteq> CHR ''/'') p)
          dotdot)"
  by pat_completeness auto
termination
proof (relation "measure (\<lambda>(rooted, p, out, dotdot). length p)")
  show "wf (measure (\<lambda>(rooted, p, out, dotdot). length p))" by simp
qed (auto simp add: less_Suc_eq_le length_dropWhile_le intro: le_trans[OF _ le_SucI])

definition path_Clean :: "string \<Rightarrow> string" where
  "path_Clean p =
     (if p = [] then ''.''
      else
        (let rooted = (hd p = CHR ''/'');
             out = (if rooted then Clean_loop True (tl p) ''/'' 1 else Clean_loop False p [] 0)
         in if out = [] then ''.'' else out))"

definition path_Join :: "string list \<Rightarrow> string" where
  "path_Join elem =
     (case dropWhile (\<lambda>e. e = []) elem of
        [] \<Rightarrow> []
      | es \<Rightarrow> path_Clean (join_slash es))"

definition grpc_Dial :: "env \<Rightarrow> string \<Rightarrow> world \<Rightarrow> world \<times> string option" where
  "grpc_Dial env addr w = (called (GrpcDial addr) w, fails env (GrpcDial addr))"

definition cli_SearchLog :: "env \<Rightarrow> SearchLogRequest \<Rightarrow> world \<Rightarrow> world \<times> string option" where
  "cli_SearchLog env req w = (called (SearchLog req) w, fails env (SearchLog req))"

definition os_MkdirAll :: "env \<Rightarrow> string \<Rightarrow> world \<Rightarrow> world \<times> string option" where
  "os_MkdirAll env dir w =
     (let w1 = called (OsMkdirAll dir) w in
      case fails env (OsMkdirAll dir) of
        Some e \<Rightarrow> (w1, Some e)
      | None \<Rightarrow> (w1\<lparr>fs := (fs w1)(dir \<mapsto> Dir)\<rparr>, None))"

definition os_Create :: "env \<Rightarrow> string \<Rightarrow> world \<Rightarrow> world \<times> string option" where
  "os_Create env p w =
     (let w1 = called (OsCreate p) w in
      case fails env (OsCreate p) of
        Some e \<Rightarrow> (w1, Some e)
      | None \<Rightarrow> (w1\<lparr>fs := (fs w1)(p \<mapsto> ZipFile [] False)\<rparr>, None))"

definition add_entry :: "string \<Rightarrow> fs_node option \<Rightarrow> fs_node option" where
  "add_entry name n =
     (case n of Some (ZipFile es c) \<Rightarrow> Some (ZipFile (es @ [(name, [])]) c) | other \<Rightarrow> other)"

definition add_line :: "string \<Rightarrow> fs_node option \<Rightarrow> fs_node option" where
  "add_line line n =
     (case n of
        Some (ZipFile es c) \<Rightarrow>
          (if es = [] then n
           else Some (ZipFile (butlast es @ [(fst (last es), snd (last es) @ [line])]) c))
      | other \<Rightarrow> other)"

definition finish_zip :: "fs_node option \<Rightarrow> fs_node option" where
  "finish_zip n = (case n of Some (ZipFile es c) \<Rightarrow> Some (ZipFile es True) | other \<Rightarrow> other)"

text \<open>\<open>zw.Create(name)\<close> on the writer over the file at \<open>p\<close>.\<close>

definition zw_Create :: "env \<Rightarrow> string \<Rightarrow> string \<Rightarrow> world \<Rightarrow> world \<times> string option" where
  "zw_Create env p name w =
     (let w1 = called (ZwCreate p name) w in
      case fails env (ZwCreate p name) of
        Some e \<Rightarrow> (w1, Some e)
      | None \<Rightarrow> (w1\<lparr>fs := (fs w1)(p := add_entry name (fs w1 p))\<rparr>, None))"

text \<open>\<open>writer.Write([]byte(line))\<close>, the \<open>n\<close>-th successful write being numbered \<open>n\<close>.\<close>

definition writer_Write :: "env \<Rightarrow> nat \<Rightarrow> string \<Rightarrow> string \<Rightarrow> world \<Rightarrow> world \<times> string option" where
  "writer_Write env n p line w =
     (let w1 = called (WriterWrite n line) w in
      case fails env (WriterWrite n line) of
        Some e \<Rightarrow> (w1, Some e)
      | None \<Rightarrow> (w1\<lparr>fs := (fs w1)(p := add_line line (fs w1 p))\<rparr>, None))"

definition zw_Flush :: "env \<Rightarrow> nat \<Rightarrow> world \<Rightarrow> world \<times> string option" where
  "zw_Flush env n w = (called (ZwFlush n) w, fails env (ZwFlush n))"

text \<open>\<open>os.RemoveAll\<close> removes the path and everything below it; on the empty path it
  returns \<open>nil\<close> and removes nothing.\<close>

definition remove_tree :: "string \<Rightarrow> (string \<Rightarrow> fs_node option) \<Rightarrow> string \<Rightarrow> fs_node option" where
  "remove_tree p f = (\<lambda>q. if q = p \<or> take (Suc (length p)) q = p @ ''/'' then None else f q)"

definition os_RemoveAll :: "env \<Rightarrow> string \<Rightarrow> world \<Rightarrow> world \<times> string option" where
  "os_RemoveAll env p w =
     (let w1 = called (OsRemoveAll p) w in
      if p = [] then (w1, None)
      else case fails env (OsRemoveAll p) of
        Some e \<Rightarrow> (w1, Some e)
      | None \<Rightarrow> (w1\<lparr>fs := remove_tree p (fs w1)\<rparr>, None))"

text \<open>The deferred calls \<open>zw.Close()\<close>, \<open>f.Close()\<close> and \<open>conn.Close()\<close>; the code drops
  their results. A successful \<open>zw.Close()\<close> completes the archive.\<close>

definition deferred_call :: "env \<Rightarrow> call \<Rightarrow> world \<Rightarrow> world" where
  "deferred_call env c w =
     (let w1 = called c w in
      case c of
        ZwClose p \<Rightarrow>
          (case fails env c of
             None \<Rightarrow> w1\<lparr>fs := (fs w1)(p := finish_zip (fs w1 p))\<rparr>
           | Some e \<Rightarrow> w1)
      | _ \<Rightarrow> w1)"

definition run_deferred :: "env \<Rightarrow> call list \<Rightarrow> world \<Rightarrow> world" where
  "run_deferred env cs w = fold (deferred_call env) cs w"

subsection \<open>The store of logsearch\<close>

text \<open>Modelled from the spec: the methods of \<open>dbClient\<close> are defined outside the two
  files. The spec lists them as CreateRecord, DeleteRecord, UpdateRecord,
  AppendPreviewLine and ClearPreview, each of which may fail; a failed call leaves the
  store as it was. The code of logsearch never reads what they return, so the
  functions return the new world only.\<close>

definition dbClient_deleteTask :: "env \<Rightarrow> TaskModel \<Rightarrow> world \<Rightarrow> world" where
  "dbClient_deleteTask env m w =
     (let w1 = called (DbDeleteTask m) w in
      case fails env (DbDeleteTask m) of
        Some e \<Rightarrow> w1
      | None \<Rightarrow> w1\<lparr>store_tasks := filter (\<lambda>r. TaskID r \<noteq> TaskID m) (store_tasks w1)\<rparr>)"

definition dbClient_createTask :: "env \<Rightarrow> TaskModel \<Rightarrow> world \<Rightarrow> world" where
  "dbClient_createTask env m w =
     (let w1 = called (DbCreateTask m) w in
      case fails env (DbCreateTask m) of
        Some e \<Rightarrow> w1
      | None \<Rightarrow> w1\<lparr>store_tasks := store_tasks w1 @ [m]\<rparr>)"

definition dbClient_updateTask :: "env \<Rightarrow> TaskModel \<Rightarrow> world \<Rightarrow> world" where
  "dbClient_updateTask env m w =
     (let w1 = called (DbUpdateTask m) w in
      case fails env (DbUpdateTask m) of
        Some e \<Rightarrow> w1
      | None \<Rightarrow> w1\<lparr>store_tasks := map (\<lambda>r. if TaskID r = TaskID m then m else r) (store_tasks w1)\<rparr>)"

definition dbClient_cleanPreview :: "env \<Rightarrow> string \<Rightarrow> world \<Rightarrow> world" where
  "dbClient_cleanPreview env tid w =
     (let w1 = called (DbCleanPreview tid) w in
      case fails env (DbCleanPreview tid) of
        Some e \<Rightarrow> w1
      | None \<Rightarrow> w1\<lparr>store_previews := filter (\<lambda>row. fst row \<noteq> tid) (store_previews w1)\<rparr>)"

definition dbClient_newPreview :: "env \<Rightarrow> nat \<Rightarrow> string \<Rightarrow> LogMessage \<Rightarrow> world \<Rightarrow> world" where
  "dbClient_newPreview env n tid msg w =
     (let w1 = called (DbNewPreview n tid msg) w in
      case fails env (DbNewPreview n tid msg) of
        Some e \<Rightarrow> w1
      | None \<Rightarrow> w1\<lparr>store_previews := store_previews w1 @ [(tid, msg)]\<rparr>)"

subsection \<open>Package logsearch\<close>

definition address :: "Component \<Rightarrow> string" where
  "address c =
     (let port = (if ServerType c = ''tidb'' then StatusPort c else Port c)
      in IP c @ '':'' @ port)"

definition zipFilename :: "Component \<Rightarrow> string" where
  "zipFilename c = IP c @ ''-'' @ Port c @ ''.zip''"

definition logFilename :: "Component \<Rightarrow> string" where
  "logFilename c = ServerType c @ ''.log''"

text \<open>\<open>NewTask\<close>; the fresh UUID and the clock reading are arguments.\<close>

definition NewTask :: "Component \<Rightarrow> string \<Rightarrow> SearchLogRequest \<Rightarrow> string \<Rightarrow> int \<Rightarrow> Task" where
  "NewTask component taskGroupID req uuid now =
     \<lparr>Component = component, Request = req, TaskGroupID = taskGroupID, TaskID = uuid,
      CreateTime = now, StartTime = 0, StopTime = 0, State = StateQueued,
      SavedPath = [], Error = [], cancel = False, doneCh = False\<rparr>"

definition ToTask :: "TaskModel \<Rightarrow> Task" where
  "ToTask m = TaskModel.extend m \<lparr>cancel = False, doneCh = False\<rparr>"

text \<open>\<open>toLine\<close> (the same text in both packages). The product
  \<open>msg.Time*int64(time.Millisecond)\<close> is an \<open>int64\<close> product and wraps; a level that is
  not a key of \<open>LogLevel_name\<close> yields Go's empty string.\<close>

definition toLine :: "env \<Rightarrow> LogMessage \<Rightarrow> string" where
  "toLine env msg =
     (let timeStr = time_Format env (sint (Time msg * 1000000))
      in ''['' @ timeStr @ ''] ['' @
         (case LogLevel_name env (Level msg) of None \<Rightarrow> [] | Some n \<Rightarrow> n) @
         ''] '' @ Message msg @ [CHR 10])"

definition PreviewLogLinesLimit :: nat where
  "PreviewLogLinesLimit = 500"

text \<open>\<open>clean\<close>: the early return after a failed \<open>os.RemoveAll\<close> skips
  \<open>cleanPreview\<close>.\<close>

definition clean :: "env \<Rightarrow> Task \<Rightarrow> world \<Rightarrow> world \<times> string option" where
  "clean env t w =
     (if SavedPath t \<noteq> [] then
        (case os_RemoveAll env (SavedPath t) w of
           (w1, Some e) \<Rightarrow> (w1, Some e)
         | (w1, None) \<Rightarrow> (dbClient_cleanPreview env (TaskID t) w1, None))
      else (dbClient_cleanPreview env (TaskID t) w, None))"

text \<open>\<open>done\<close>: whether a value is sent on \<open>doneCh\<close>.\<close>

definition done_signal :: "Task \<Rightarrow> bool" where
  "done_signal t = doneCh t"

text \<open>\<open>close\<close>. The result of \<open>clean\<close> is dropped, as in the code; the message printed
  on standard output is left out.\<close>

definition close :: "env \<Rightarrow> Task \<Rightarrow> world \<Rightarrow> Task \<times> world" where
  "close env t w =
     (if Error t \<noteq> [] then
        (let w1 = fst (clean env t w);
             t1 = t\<lparr>StopTime := now_stop env\<rparr>;
             t2 = t1\<lparr>State := StateCanceled\<rparr>
         in (t2, dbClient_updateTask env (TaskModel.truncate t2) w1))
      else
        (let t1 = t\<lparr>StopTime := now_stop env\<rparr>;
             t2 = t1\<lparr>State := StateFinished\<rparr>
         in (t2, dbClient_updateTask env (TaskModel.truncate t2) w)))"

text \<open>The state of the receive loop: the task, the world, the archive the zip writer
  and the entry writer write to, the local counter \<open>previewLogLinesCount\<close>, and two
  counters of the embedding (lines written, responses received) that number the
  calls.\<close>

record loop_state =
  task :: Task
  world :: world
  zw :: string
  previewLogLinesCount :: nat
  nwritten :: nat
  nbatch :: nat

text \<open>The body of \<open>for _, msg := range res.Messages\<close>. The flag says that \<open>run\<close>
  returned from inside the loop.\<close>

fun write_messages :: "env \<Rightarrow> LogMessage list \<Rightarrow> loop_state \<Rightarrow> loop_state \<times> bool" where
  "write_messages env [] st = (st, False)"
| "write_messages env (msg # msgs) st =
     (let line = toLine env msg in
      case writer_Write env (nwritten st) (zw st) line (world st) of
        (w1, Some e) \<Rightarrow> (st\<lparr>task := (task st)\<lparr>Error := e\<rparr>, world := w1\<rparr>, True)
      | (w1, None) \<Rightarrow>
          (let st1 = st\<lparr>world := w1, nwritten := Suc (nwritten st)\<rparr>;
               st2 = (if previewLogLinesCount st1 < PreviewLogLinesLimit
                      then st1\<lparr>world := dbClient_newPreview env (previewLogLinesCount st1)
                                          (TaskID (task st1)) msg (world st1),
                               previewLogLinesCount := Suc (previewLogLinesCount st1)\<rparr>
                      else st1)
           in write_messages env msgs st2))"

datatype loop_exit = Blocked loop_state | Return loop_state

text \<open>The \<open>for\<close> loop of \<open>run\<close> over the results that \<open>Recv\<close> delivers.\<close>

fun recv_loop :: "env \<Rightarrow> recv_result list \<Rightarrow> loop_state \<Rightarrow> loop_exit" where
  "recv_loop env [] st = Blocked st"
| "recv_loop env (r # rs) st =
     (let st0 = st\<lparr>world := called (StreamRecv (nbatch st)) (world st)\<rparr> in
      case r of
        RecvEOF \<Rightarrow> Return st0
      | RecvError e \<Rightarrow> Return (st0\<lparr>task := (task st0)\<lparr>Error := e\<rparr>\<rparr>)
      | RecvMessages msgs \<Rightarrow>
          (case write_messages env msgs st0 of
             (st1, True) \<Rightarrow> Return st1
           | (st1, False) \<Rightarrow>
               (case zw_Flush env (nbatch st1) (world st1) of
                  (w1, Some e) \<Rightarrow> Return (st1\<lparr>task := (task st1)\<lparr>Error := e\<rparr>, world := w1\<rparr>)
                | (w1, None) \<Rightarrow>
                    recv_loop env rs (st1\<lparr>world := w1, nbatch := Suc (nbatch st1)\<rparr>))))"

text \<open>Where the goroutine of a task stands: \<open>run\<close> has not been called, it is blocked in
  \<open>Recv\<close>, or it has returned (after \<open>close\<close>).\<close>

datatype status = NotStarted Task world | Waiting loop_state | Returned Task world

text \<open>A return of \<open>run\<close>: the deferred calls in reverse order of registration, \<open>close\<close>
  last.\<close>

definition returns :: "env \<Rightarrow> call list \<Rightarrow> Task \<Rightarrow> world \<Rightarrow> status" where
  "returns env deferred t w =
     (case close env t (run_deferred env deferred w) of (t', w') \<Rightarrow> Returned t' w')"

text \<open>The loop and the return that follows it (lines 181 to 208).\<close>

definition run_receive :: "env \<Rightarrow> recv_result list \<Rightarrow> loop_state \<Rightarrow> status" where
  "run_receive env rs st =
     (case recv_loop env rs st of
        Blocked st' \<Rightarrow> Waiting st'
      | Return st' \<Rightarrow>
          returns env [ZwClose (zw st'), FClose (zw st'), ConnClose] (task st') (world st'))"

text \<open>Lines 170 to 179: the record becomes \<open>StateRunning\<close>. The test of \<open>err\<close> that
  follows reads the variable last assigned by \<open>zw.Create\<close>, which is \<open>nil\<close> here.\<close>

definition run_start :: "env \<Rightarrow> string \<Rightarrow> string option \<Rightarrow> Task \<Rightarrow> world \<Rightarrow> status" where
  "run_start env savedPath err t w =
     (let t1 = t\<lparr>StartTime := now_start env\<rparr>;
          t2 = t1\<lparr>State := StateRunning\<rparr>;
          w1 = dbClient_deleteTask env (TaskModel.truncate t2) w;
          w2 = dbClient_createTask env (TaskModel.truncate t2) w1
      in case err of
           Some e \<Rightarrow> returns env [ZwClose savedPath, FClose savedPath, ConnClose] (t2\<lparr>Error := e\<rparr>) w2
         | None \<Rightarrow>
             run_receive env (stream env)
               \<lparr>task = t2, world = w2, zw = savedPath, previewLogLinesCount = 0,
                nwritten = 0, nbatch = 0\<rparr>)"

text \<open>Lines 144 to 168: the directory, the file, the zip entry.\<close>

definition run_sink :: "env \<Rightarrow> Task \<Rightarrow> world \<Rightarrow> status" where
  "run_sink env t w =
     (let dir = path_Join [logsSavePath env, TaskGroupID t] in
      case os_MkdirAll env dir w of
        (w1, Some e) \<Rightarrow> returns env [ConnClose] (t\<lparr>Error := e\<rparr>) w1
      | (w1, None) \<Rightarrow>
     (let savedPath = path_Join [dir, zipFilename (Component t)] in
      case os_Create env savedPath w1 of
        (w2, Some e) \<Rightarrow> returns env [ConnClose] (t\<lparr>Error := e\<rparr>) w2
      | (w2, None) \<Rightarrow>
     (case zw_Create env savedPath (logFilename (Component t)) w2 of
        (w3, Some e) \<Rightarrow>
          returns env [ZwClose savedPath, FClose savedPath, ConnClose] (t\<lparr>Error := e\<rparr>) w3
      | (w3, None) \<Rightarrow>
          (let t1 = t\<lparr>SavedPath := savedPath\<rparr>;
               err = (None :: string option)
           in case err of
                Some e \<Rightarrow>
                  returns env [ZwClose savedPath, FClose savedPath, ConnClose] (t1\<lparr>Error := e\<rparr>) w3
              | None \<Rightarrow> run_start env savedPath err t1 w3))))"

text \<open>\<open>run\<close>: the cancel function is installed first, then the dial and the stream.\<close>

definition run :: "env \<Rightarrow> Task \<Rightarrow> world \<Rightarrow> status" where
  "run env t0 w0 =
     (let t = t0\<lparr>cancel := True\<rparr> in
      case grpc_Dial env (address (Component t)) w0 of
        (w1, Some e) \<Rightarrow> returns env [] (t\<lparr>Error := e\<rparr>) w1
      | (w1, None) \<Rightarrow>
     (case cli_SearchLog env (Request t) w1 of
        (w2, Some e) \<Rightarrow> returns env [ConnClose] (t\<lparr>Error := e\<rparr>) w2
      | (w2, None) \<Rightarrow> run_sink env t w2))"

text \<open>The error a cancelled context makes the pending \<open>Recv\<close> return.\<close>

definition context_canceled :: string where
  "context_canceled = ''rpc error: code = Canceled desc = context canceled''"

definition task_of :: "status \<Rightarrow> Task" where
  "task_of s = (case s of NotStarted t w \<Rightarrow> t | Waiting st \<Rightarrow> task st | Returned t w \<Rightarrow> t)"

definition world_of :: "status \<Rightarrow> world" where
  "world_of s = (case s of NotStarted t w \<Rightarrow> w | Waiting st \<Rightarrow> world st | Returned t w \<Rightarrow> w)"

text \<open>\<open>Abort\<close>, called while the goroutine of the task is in the given status. With a
  cancel function installed it makes the channel, cancels the context and receives from
  the channel. A goroutine blocked in \<open>Recv\<close> then gets the cancellation error, returns
  through \<open>close\<close>, and \<open>done\<close> sends on the channel, which lets \<open>Abort\<close> return \<open>nil\<close>.
  When no goroutine is left to send, the receive never returns: the result is \<open>None\<close>.
  Otherwise the result is the status at the return of \<open>Abort\<close> and the error.\<close>

definition Abort :: "env \<Rightarrow> status \<Rightarrow> (status \<times> string option) option" where
  "Abort env s =
     (if cancel (task_of s) then
        (case s of
           Waiting st \<Rightarrow>
             (case run_receive env [RecvError context_canceled]
                     (st\<lparr>task := (task st)\<lparr>doneCh := True\<rparr>\<rparr>) of
                Returned t' w' \<Rightarrow>
                  if done_signal t' then Some (Returned t' w', None) else None
              | other \<Rightarrow> None)
         | other \<Rightarrow> None)
      else Some (s, Some (''task ['' @ TaskID (task_of s) @ ''] is not running'')))"

subsection \<open>Package logs\<close>

text \<open>\<open>type Task struct { *ReqInfo; db; id; taskGroupID; file; writer; savedPath; zw;
  err; cancel }\<close>. The store handle \<open>db\<close> is the store of the world. \<open>file\<close>,
  \<open>writer\<close> and \<open>zw\<close> hold the path of the file they refer to, or \<open>None\<close> for \<open>nil\<close>;
  \<open>err\<close> is \<open>None\<close> for \<open>nil\<close>. Names that are taken carry a prime.\<close>

record ReqInfo =
  serverType :: string
  ip :: string
  port :: string
  req :: SearchLogRequest

record logs_Task = ReqInfo +
  id' :: string
  taskGroupID :: string
  file' :: "string option"
  writer :: "string option"
  savedPath :: string
  zw' :: "string option"
  err :: "string option"
  cancel' :: bool

definition logs_address :: "'a ReqInfo_scheme \<Rightarrow> string" where
  "logs_address r = ip r @ '':'' @ port r"

definition logs_zipFilename :: "'a ReqInfo_scheme \<Rightarrow> string" where
  "logs_zipFilename r = ip r @ ''-'' @ port r @ ''.zip''"

definition logs_logFilename :: "'a ReqInfo_scheme \<Rightarrow> string" where
  "logs_logFilename r = serverType r @ ''.log''"

definition logs_NewTask :: "ReqInfo \<Rightarrow> string \<Rightarrow> string \<Rightarrow> logs_Task" where
  "logs_NewTask reqInfo taskGroupID' uuid =
     ReqInfo.extend reqInfo
       \<lparr>id' = uuid, taskGroupID = taskGroupID', file' = None, writer = None,
        savedPath = [], zw' = None, err = None, cancel' = False\<rparr>"

text \<open>The store of logs. \<open>insertLineToPreview\<close> is the spec's AppendPreviewLine. What
  \<open>startTask\<close>, \<open>cancelTask\<close> and \<open>finishTask\<close> write is decided outside the two files:
  the calls are recorded in the trace and change nothing else.\<close>

definition db_startTask :: "env \<Rightarrow> string \<Rightarrow> string \<Rightarrow> string \<Rightarrow> world \<Rightarrow> world \<times> string option" where
  "db_startTask env i p g w = (called (DbStartTask i p g) w, fails env (DbStartTask i p g))"

definition db_insertLineToPreview ::
  "env \<Rightarrow> nat \<Rightarrow> string \<Rightarrow> LogMessage \<Rightarrow> world \<Rightarrow> world \<times> string option" where
  "db_insertLineToPreview env n i msg w =
     (let w1 = called (DbInsertLineToPreview n i msg) w in
      case fails env (DbInsertLineToPreview n i msg) of
        Some e \<Rightarrow> (w1, Some e)
      | None \<Rightarrow> (w1\<lparr>store_previews := store_previews w1 @ [(i, msg)]\<rparr>, None))"

definition db_cancelTask :: "env \<Rightarrow> string \<Rightarrow> world \<Rightarrow> world" where
  "db_cancelTask env i w = called (DbCancelTask i) w"

definition db_finishTask :: "env \<Rightarrow> string \<Rightarrow> world \<Rightarrow> world" where
  "db_finishTask env i w = called (DbFinishTask i) w"

text \<open>\<open>Abort\<close> of logs cancels the context and returns at once.\<close>

definition logs_Abort :: "logs_Task \<Rightarrow> string option" where
  "logs_Abort t =
     (if cancel' t then None else Some (''task ['' @ id' t @ ''] is not running''))"

text \<open>\<open>close\<close> of logs; the results of \<open>os.RemoveAll\<close>, \<open>cancelTask\<close> and \<open>finishTask\<close>
  are dropped.\<close>

definition logs_close :: "env \<Rightarrow> logs_Task \<Rightarrow> world \<Rightarrow> world" where
  "logs_close env t w =
     (case err t of
        Some e \<Rightarrow> db_cancelTask env (id' t) (fst (os_RemoveAll env (savedPath t) w))
      | None \<Rightarrow> db_finishTask env (id' t) w)"

text \<open>\<open>CreateFile\<close> returns the error, or the file and the zip writer (both stand for the
  file at the saved path). It sets \<open>t.writer\<close> and \<open>t.savedPath\<close>, and leaves \<open>t.zw\<close> and
  \<open>t.file\<close> as they are.\<close>

definition CreateFile :: "env \<Rightarrow> logs_Task \<Rightarrow> world \<Rightarrow> logs_Task \<times> world \<times> (string + string \<times> string)" where
  "CreateFile env t w =
     (let dir = path_Join [TempDir env, ''dashboard-logs'', taskGroupID t] in
      case os_MkdirAll env dir w of
        (w1, Some e) \<Rightarrow> (t, w1, Inl e)
      | (w1, None) \<Rightarrow>
     (let savedPath' = path_Join [dir, logs_zipFilename t] in
      case os_Create env savedPath' w1 of
        (w2, Some e) \<Rightarrow> (t, w2, Inl e)
      | (w2, None) \<Rightarrow>
     (case zw_Create env savedPath' (logs_logFilename t) w2 of
        (w3, Some e) \<Rightarrow> (t, w3, Inl e)
      | (w3, None) \<Rightarrow>
          (t\<lparr>writer := Some savedPath', savedPath := savedPath'\<rparr>, w3,
           Inr (savedPath', savedPath')))))"

definition logs_PreviewLogLinesLimit :: nat where
  "logs_PreviewLogLinesLimit = 100"

record logs_loop_state =
  ltask :: logs_Task
  lworld :: world
  lcount :: nat
  lwritten :: nat
  lbatch :: nat

text \<open>How a loop body ends: it goes on, \<open>run\<close> returns, or a nil pointer is
  dereferenced.\<close>

datatype flow = Next | Ret | Panic

text \<open>The body of \<open>for _, msg := range res.Messages\<close> in logs; \<open>lcount\<close> is
  \<open>previewLogLinesCount\<close>.\<close>

fun logs_write_messages ::
  "env \<Rightarrow> LogMessage list \<Rightarrow> logs_loop_state \<Rightarrow> logs_loop_state \<times> flow" where
  "logs_write_messages env [] st = (st, Next)"
| "logs_write_messages env (msg # msgs) st =
     (let line = toLine env msg in
      case writer (ltask st) of
        None \<Rightarrow> (st, Panic)
      | Some p \<Rightarrow>
     (case writer_Write env (lwritten st) p line (lworld st) of
        (w1, Some e) \<Rightarrow> (st\<lparr>ltask := (ltask st)\<lparr>err := Some e\<rparr>, lworld := w1\<rparr>, Ret)
      | (w1, None) \<Rightarrow>
          (let st1 = st\<lparr>lworld := w1, lwritten := Suc (lwritten st)\<rparr> in
           if lcount st1 < logs_PreviewLogLinesLimit then
             (case db_insertLineToPreview env (lcount st1) (id' (ltask st1)) msg (lworld st1) of
                (w2, Some e) \<Rightarrow> (st1\<lparr>ltask := (ltask st1)\<lparr>err := Some e\<rparr>, lworld := w2\<rparr>, Ret)
              | (w2, None) \<Rightarrow>
                  logs_write_messages env msgs (st1\<lparr>lworld := w2, lcount := Suc (lcount st1)\<rparr>))
           else logs_write_messages env msgs st1)))"

datatype logs_loop_exit = LBlocked logs_loop_state | LReturn logs_loop_state | LPanic logs_loop_state

text \<open>The \<open>for\<close> loop of \<open>run\<close> in logs. The flush is called on the field \<open>t.zw\<close>.\<close>

fun logs_recv_loop :: "env \<Rightarrow> recv_result list \<Rightarrow> logs_loop_state \<Rightarrow> logs_loop_exit" where
  "logs_recv_loop env [] st = LBlocked st"
| "logs_recv_loop env (r # rs) st =
     (let st0 = st\<lparr>lworld := called (StreamRecv (lbatch st)) (lworld st)\<rparr> in
      case r of
        RecvEOF \<Rightarrow> LReturn st0
      | RecvError e \<Rightarrow> LReturn (st0\<lparr>ltask := (ltask st0)\<lparr>err := Some e\<rparr>\<rparr>)
      | RecvMessages msgs \<Rightarrow>
          (case logs_write_messages env msgs st0 of
             (st1, Panic) \<Rightarrow> LPanic st1
           | (st1, Ret) \<Rightarrow> LReturn st1
           | (st1, Next) \<Rightarrow>
               (case zw' (ltask st1) of
                  None \<Rightarrow> LPanic st1
                | Some p \<Rightarrow>
                    (case zw_Flush env (lbatch st1) (lworld st1) of
                       (w1, Some e) \<Rightarrow>
                         LReturn (st1\<lparr>ltask := (ltask st1)\<lparr>err := Some e\<rparr>, lworld := w1\<rparr>)
                     | (w1, None) \<Rightarrow>
                         logs_recv_loop env rs (st1\<lparr>lworld := w1, lbatch := Suc (lbatch st1)\<rparr>)))))"

text \<open>Where the goroutine of a logs task stands. A panic unwinds through the deferred
  calls and then ends the goroutine.\<close>

datatype logs_status =
    LWaiting logs_loop_state
  | LReturned logs_Task world
  | LPanicked logs_Task world

definition logs_returns :: "env \<Rightarrow> call list \<Rightarrow> logs_Task \<Rightarrow> world \<Rightarrow> logs_status" where
  "logs_returns env deferred t w = LReturned t (logs_close env t (run_deferred env deferred w))"

definition logs_panics :: "env \<Rightarrow> call list \<Rightarrow> logs_Task \<Rightarrow> world \<Rightarrow> logs_status" where
  "logs_panics env deferred t w = LPanicked t (logs_close env t (run_deferred env deferred w))"

definition logs_run_receive :: "env \<Rightarrow> string \<Rightarrow> recv_result list \<Rightarrow> logs_loop_state \<Rightarrow> logs_status" where
  "logs_run_receive env f rs st =
     (case logs_recv_loop env rs st of
        LBlocked st' \<Rightarrow> LWaiting st'
      | LReturn st' \<Rightarrow> logs_returns env [ZwClose f, FClose f, ConnClose] (ltask st') (lworld st')
      | LPanic st' \<Rightarrow> logs_panics env [ZwClose f, FClose f, ConnClose] (ltask st') (lworld st'))"

definition logs_run :: "env \<Rightarrow> logs_Task \<Rightarrow> world \<Rightarrow> logs_status" where
  "logs_run env t0 w0 =
     (let t = t0\<lparr>cancel' := True\<rparr> in
      case grpc_Dial env (logs_address t) w0 of
        (w1, Some e) \<Rightarrow> logs_returns env [] (t\<lparr>err := Some e\<rparr>) w1
      | (w1, None) \<Rightarrow>
     (case cli_SearchLog env (req t) w1 of
        (w2, Some e) \<Rightarrow> logs_returns env [ConnClose] (t\<lparr>err := Some e\<rparr>) w2
      | (w2, None) \<Rightarrow>
     (case CreateFile env t w2 of
        (t1, w3, Inl e) \<Rightarrow> logs_returns env [ConnClose] (t1\<lparr>err := Some e\<rparr>) w3
      | (t1, w3, Inr (f, z)) \<Rightarrow>
     (case db_startTask env (id' t1) (savedPath t1) (taskGroupID t1) w3 of
        (w4, Some e) \<Rightarrow>
          logs_returns env [ZwClose z, FClose f, ConnClose] (t1\<lparr>err := Some e\<rparr>) w4
      | (w4, None) \<Rightarrow>
          logs_run_receive env f (stream env)
            \<lparr>ltask = t1, lworld = w4, lcount = 0, lwritten = 0, lbatch = 0\<rparr>))))"

subsection \<open>Reading a status and a trace\<close>

definition has_returned :: "status \<Rightarrow> bool" where
  "has_returned s = (case s of Returned t w \<Rightarrow> True | other \<Rightarrow> False)"

definition logs_task_of :: "logs_status \<Rightarrow> logs_Task" where
  "logs_task_of s = (case s of LWaiting st \<Rightarrow> ltask st | LReturned t w \<Rightarrow> t | LPanicked t w \<Rightarrow> t)"

definition logs_world_of :: "logs_status \<Rightarrow> world" where
  "logs_world_of s = (case s of LWaiting st \<Rightarrow> lworld st | LReturned t w \<Rightarrow> w | LPanicked t w \<Rightarrow> w)"

text \<open>The calls made between two worlds of one execution.\<close>

definition new_calls :: "world \<Rightarrow> world \<Rightarrow> call list" where
  "new_calls w w' = drop (length (trace w)) (trace w')"

text \<open>The messages handed to the preview table, the lines handed to the entry writer,
  and the lines whose write succeeded, each in the order of the calls.\<close>

definition preview_of :: "call \<Rightarrow> LogMessage list" where
  "preview_of c =
     (case c of DbNewPreview n i m \<Rightarrow> [m] | DbInsertLineToPreview n i m \<Rightarrow> [m] | _ \<Rightarrow> [])"

definition preview_msgs :: "call list \<Rightarrow> LogMessage list" where
  "preview_msgs cs = concat (map preview_of cs)"

definition line_of :: "call \<Rightarrow> string list" where
  "line_of c = (case c of WriterWrite n l \<Rightarrow> [l] | _ \<Rightarrow> [])"

definition written_lines :: "call list \<Rightarrow> string list" where
  "written_lines cs = concat (map line_of cs)"

definition written_ok :: "env \<Rightarrow> call list \<Rightarrow> string list" where
  "written_ok env cs = written_lines (filter (\<lambda>c. fails env c = None) cs)"

definition is_sink_call :: "call \<Rightarrow> bool" where
  "is_sink_call c =
     (case c of OsMkdirAll d \<Rightarrow> True | OsCreate p \<Rightarrow> True | ZwCreate p n \<Rightarrow> True | _ \<Rightarrow> False)"

definition is_dial :: "call \<Rightarrow> bool" where
  "is_dial c = (case c of GrpcDial a \<Rightarrow> True | _ \<Rightarrow> False)"

definition is_open :: "call \<Rightarrow> bool" where
  "is_open c = (case c of SearchLog r \<Rightarrow> True | _ \<Rightarrow> False)"

definition is_recv :: "call \<Rightarrow> bool" where
  "is_recv c = (case c of StreamRecv n \<Rightarrow> True | _ \<Rightarrow> False)"

definition is_flush :: "call \<Rightarrow> bool" where
  "is_flush c = (case c of ZwFlush n \<Rightarrow> True | _ \<Rightarrow> False)"

text \<open>The messages a stream delivers before its first end-of-stream or error.\<close>

fun stream_msgs :: "recv_result list \<Rightarrow> LogMessage list" where
  "stream_msgs [] = []"
| "stream_msgs (RecvMessages msgs # rs) = msgs @ stream_msgs rs"
| "stream_msgs (r # rs) = []"

text \<open>The directory and the archive path that \<open>run\<close> of logsearch computes, and the
  calls that must succeed for the task to reach the receive loop.\<close>

definition dir_of :: "env \<Rightarrow> Task \<Rightarrow> string" where
  "dir_of env t = path_Join [logsSavePath env, TaskGroupID t]"

definition savedPath_of :: "env \<Rightarrow> Task \<Rightarrow> string" where
  "savedPath_of env t = path_Join [dir_of env t, zipFilename (Component t)]"

definition connect_ok :: "env \<Rightarrow> Task \<Rightarrow> bool" where
  "connect_ok env t =
     (fails env (GrpcDial (address (Component t))) = None \<and>
      fails env (SearchLog (Request t)) = None)"

definition sink_ok :: "env \<Rightarrow> Task \<Rightarrow> bool" where
  "sink_ok env t =
     (fails env (OsMkdirAll (dir_of env t)) = None \<and>
      fails env (OsCreate (savedPath_of env t)) = None \<and>
      fails env (ZwCreate (savedPath_of env t) (logFilename (Component t))) = None)"

text \<open>Every write to the entry and every flush succeeds.\<close>

definition io_ok :: "env \<Rightarrow> bool" where
  "io_ok env = ((\<forall>n l. fails env (WriterWrite n l) = None) \<and> (\<forall>n. fails env (ZwFlush n) = None))"

text \<open>The rows of one task in the preview table.\<close>

definition preview_rows :: "string \<Rightarrow> world \<Rightarrow> LogMessage list" where
  "preview_rows tid w = map snd (filter (\<lambda>row. fst row = tid) (store_previews w))"

subsection \<open>An example environment\<close>

text \<open>The level names of \<open>diagnosticspb\<close>, and the time stamp layout
  \<open>2006/01/02 15:04:05.000 -07:00\<close> rendered for the zone UTC (years 0000 to 9999).\<close>

definition kv_LogLevel_name :: "int \<Rightarrow> string option" where
  "kv_LogLevel_name =
     map_of [(0, ''UNKNOWN''), (1, ''Debug''), (2, ''Info''), (3, ''Warn''), (4, ''Trace''),
             (5, ''Critical''), (6, ''Error'')]"

definition digit :: "int \<Rightarrow> char" where
  "digit d = ''0123456789'' ! nat d"

definition d2 :: "int \<Rightarrow> string" where
  "d2 n = [digit (n div 10 mod 10), digit (n mod 10)]"

definition utc_Format :: "int \<Rightarrow> string" where
  "utc_Format ns =
     (let ms = ns div 1000000 mod 1000;
          secs = ns div 1000000000;
          sod = secs mod 86400;
          z = secs div 86400 + 719468;
          era = z div 146097;
          doe = z mod 146097;
          yoe = (doe - doe div 1460 + doe div 36524 - doe div 146096) div 365;
          doy = doe - (365 * yoe + yoe div 4 - yoe div 100);
          mp = (5 * doy + 2) div 153;
          d = doy - (153 * mp + 2) div 5 + 1;
          m = (if mp < 10 then mp + 3 else mp - 9);
          y = yoe + era * 400 + (if m \<le> 2 then 1 else 0)
      in d2 (y div 100) @ d2 (y mod 100) @ ''/'' @ d2 m @ ''/'' @ d2 d @ '' '' @
         d2 (sod div 3600) @ '':'' @ d2 (sod div 60 mod 60) @ '':'' @ d2 (sod mod 60) @
         ''.'' @ [digit (ms div 100)] @ d2 (ms mod 100) @ '' +00:00'')"

definition example_env :: "(call \<Rightarrow> string option) \<Rightarrow> recv_result list \<Rightarrow> env" where
  "example_env f rs =
     \<lparr>fails = f, stream = rs, now_start = 1583064001, now_stop = 1583064002,
      logsSavePath = ''/tmp/dashboard-logs'', TempDir = ''/tmp'',
      time_Format = utc_Format, LogLevel_name = kv_LogLevel_name\<rparr>"

definition no_failure :: "call \<Rightarrow> string option" where
  "no_failure c = None"

definition example_component :: Component where
  "example_component =
     \<lparr>ServerType = ''tikv'', IP = ''10.0.0.1'', Port = ''20160'', StatusPort = ''20180''\<rparr>"

definition example_task :: Task where
  "example_task = NewTask example_component ''g1'' ''req'' ''t1'' 1583064000"

definition example_path :: string where
  "example_path = ''/tmp/dashboard-logs/g1/10.0.0.1-20160.zip''"

definition example_msg :: LogMessage where
  "example_msg = \<lparr>Time = 1583064000123, Level = 2, Message = ''ready''\<rparr>"

definition empty_world :: world where
  "empty_world = \<lparr>fs = (\<lambda>p. None), store_tasks = [], store_previews = [], trace = []\<rparr>"

subsection \<open>Intermediate worlds of a run of logsearch\<close>

text \<open>The world after the dial and the stream, after each call that builds the sink, and
  the state in which the receive loop starts.\<close>

definition after_connect :: "env \<Rightarrow> Task \<Rightarrow> world \<Rightarrow> world" where
  "after_connect env t w =
     called (SearchLog (Request t)) (called (GrpcDial (address (Component t))) w)"

definition after_mkdir :: "env \<Rightarrow> Task \<Rightarrow> world \<Rightarrow> world" where
  "after_mkdir env t w = fst (os_MkdirAll env (dir_of env t) (after_connect env t w))"

definition after_create :: "env \<Rightarrow> Task \<Rightarrow> world \<Rightarrow> world" where
  "after_create env t w = fst (os_Create env (savedPath_of env t) (after_mkdir env t w))"

definition after_zip :: "env \<Rightarrow> Task \<Rightarrow> world \<Rightarrow> world" where
  "after_zip env t w =
     fst (zw_Create env (savedPath_of env t) (logFilename (Component t)) (after_create env t w))"

definition running_task :: "env \<Rightarrow> Task \<Rightarrow> Task" where
  "running_task env t =
     t\<lparr>cancel := True, SavedPath := savedPath_of env t, StartTime := now_start env,
       State := StateRunning\<rparr>"

definition loop_start :: "env \<Rightarrow> Task \<Rightarrow> world \<Rightarrow> loop_state" where
  "loop_start env t w =
     \<lparr>task = running_task env t,
      world = dbClient_createTask env (TaskModel.truncate (running_task env t))
                (dbClient_deleteTask env (TaskModel.truncate (running_task env t))
                   (after_zip env t w)),
      zw = savedPath_of env t, previewLogLinesCount = 0, nwritten = 0, nbatch = 0\<rparr>"

definition exit_state :: "loop_exit \<Rightarrow> loop_state" where
  "exit_state x = (case x of Blocked st \<Rightarrow> st | Return st \<Rightarrow> st)"

definition closed_task :: "env \<Rightarrow> Task \<Rightarrow> Task" where
  "closed_task env t =
     t\<lparr>StopTime := now_stop env,
       State := (if Error t \<noteq> [] then StateCanceled else StateFinished)\<rparr>"

definition close_calls :: "env \<Rightarrow> Task \<Rightarrow> call list" where
  "close_calls env t =
     (if Error t \<noteq> [] then
        (if SavedPath t \<noteq> [] then [OsRemoveAll (SavedPath t)] else []) @
        (if SavedPath t = [] \<or> fails env (OsRemoveAll (SavedPath t)) = None
         then [DbCleanPreview (TaskID t)] else [])
      else []) @
     [DbUpdateTask (TaskModel.truncate (closed_task env t))]"

definition pinv :: "env \<Rightarrow> nat \<Rightarrow> LogMessage list \<Rightarrow> call list \<Rightarrow> nat \<Rightarrow> bool" where
  "pinv env K M tr nw =
     (nw \<le> length M \<and>
      written_ok env tr = map (toLine env) (take nw M) \<and>
      preview_msgs tr = take (min K nw) M)"

definition setup_calls :: "env \<Rightarrow> Task \<Rightarrow> call list" where
  "setup_calls env t =
     GrpcDial (address (Component t)) #
     (if fails env (GrpcDial (address (Component t))) \<noteq> None then []
      else SearchLog (Request t) #
     (if fails env (SearchLog (Request t)) \<noteq> None then []
      else OsMkdirAll (dir_of env t) #
     (if fails env (OsMkdirAll (dir_of env t)) \<noteq> None then []
      else OsCreate (savedPath_of env t) #
     (if fails env (OsCreate (savedPath_of env t)) \<noteq> None then []
      else [ZwCreate (savedPath_of env t) (logFilename (Component t))]))))"

definition loop_calls :: "env \<Rightarrow> recv_result list \<Rightarrow> loop_state \<Rightarrow> call list" where
  "loop_calls env rs st =
     drop (length (trace (world st))) (trace (world (exit_state (recv_loop env rs st))))"

definition is_loop_call :: "call \<Rightarrow> bool" where
  "is_loop_call c =
     (case c of StreamRecv n \<Rightarrow> True | WriterWrite n l \<Rightarrow> True | ZwFlush n \<Rightarrow> True
      | DbNewPreview n i m \<Rightarrow> True | _ \<Rightarrow> False)"

definition tail_calls :: "env \<Rightarrow> recv_result list \<Rightarrow> loop_state \<Rightarrow> call list" where
  "tail_calls env rs st =
     (case recv_loop env rs st of
        Blocked st' \<Rightarrow> []
      | Return st' \<Rightarrow>
          [ZwClose (zw st'), FClose (zw st'), ConnClose] @ close_calls env (task st'))"

definition quiet :: "env \<Rightarrow> call list \<Rightarrow> bool" where
  "quiet env cs =
     (filter is_dial cs = [] \<and> filter is_open cs = [] \<and> filter is_sink_call cs = [] \<and>
      filter is_recv cs = [] \<and> preview_msgs cs = [] \<and> written_ok env cs = [])"

definition logs_dir_of :: "env \<Rightarrow> logs_Task \<Rightarrow> string" where
  "logs_dir_of env t = path_Join [TempDir env, ''dashboard-logs'', taskGroupID t]"

definition logs_savedPath_of :: "env \<Rightarrow> logs_Task \<Rightarrow> string" where
  "logs_savedPath_of env t = path_Join [logs_dir_of env t, logs_zipFilename t]"

definition logs_connect_ok :: "env \<Rightarrow> logs_Task \<Rightarrow> bool" where
  "logs_connect_ok env t =
     (fails env (GrpcDial (logs_address t)) = None \<and> fails env (SearchLog (req t)) = None)"

definition logs_sink_ok :: "env \<Rightarrow> logs_Task \<Rightarrow> bool" where
  "logs_sink_ok env t =
     (fails env (OsMkdirAll (logs_dir_of env t)) = None \<and>
      fails env (OsCreate (logs_savedPath_of env t)) = None \<and>
      fails env (ZwCreate (logs_savedPath_of env t) (logs_logFilename t)) = None)"

definition logs_start_ok :: "env \<Rightarrow> logs_Task \<Rightarrow> bool" where
  "logs_start_ok env t =
     (fails env (DbStartTask (id' t) (logs_savedPath_of env t) (taskGroupID t)) = None)"

definition logs_after_connect :: "env \<Rightarrow> logs_Task \<Rightarrow> world \<Rightarrow> world" where
  "logs_after_connect env t w =
     called (SearchLog (req t)) (called (GrpcDial (logs_address t)) w)"

definition logs_after_mkdir :: "env \<Rightarrow> logs_Task \<Rightarrow> world \<Rightarrow> world" where
  "logs_after_mkdir env t w =
     fst (os_MkdirAll env (logs_dir_of env t) (logs_after_connect env t w))"

definition logs_after_create :: "env \<Rightarrow> logs_Task \<Rightarrow> world \<Rightarrow> world" where
  "logs_after_create env t w =
     fst (os_Create env (logs_savedPath_of env t) (logs_after_mkdir env t w))"

definition logs_after_zip :: "env \<Rightarrow> logs_Task \<Rightarrow> world \<Rightarrow> world" where
  "logs_after_zip env t w =
     fst (zw_Create env (logs_savedPath_of env t) (logs_logFilename t)
            (logs_after_create env t w))"

definition logs_running_task :: "env \<Rightarrow> logs_Task \<Rightarrow> logs_Task" where
  "logs_running_task env t =
     t\<lparr>cancel' := True, writer := Some (logs_savedPath_of env t),
       savedPath := logs_savedPath_of env t\<rparr>"

definition logs_after_start :: "env \<Rightarrow> logs_Task \<Rightarrow> world \<Rightarrow> world" where
  "logs_after_start env t w =
     called (DbStartTask (id' t) (logs_savedPath_of env t) (taskGroupID t))
       (logs_after_zip env t w)"

definition logs_loop_start :: "env \<Rightarrow> logs_Task \<Rightarrow> world \<Rightarrow> logs_loop_state" where
  "logs_loop_start env t w =
     \<lparr>ltask = logs_running_task env t, lworld = logs_after_start env t w,
      lcount = 0, lwritten = 0, lbatch = 0\<rparr>"

definition logs_close_calls :: "logs_Task \<Rightarrow> call list" where
  "logs_close_calls t =
     (case err t of
        Some e \<Rightarrow> [OsRemoveAll (savedPath t), DbCancelTask (id' t)]
      | None \<Rightarrow> [DbFinishTask (id' t)])"

definition logs_exit_state :: "logs_loop_exit \<Rightarrow> logs_loop_state" where
  "logs_exit_state x = (case x of LBlocked st \<Rightarrow> st | LReturn st \<Rightarrow> st | LPanic st \<Rightarrow> st)"

definition logs_loop_calls :: "env \<Rightarrow> recv_result list \<Rightarrow> logs_loop_state \<Rightarrow> call list" where
  "logs_loop_calls env rs st =
     drop (length (trace (lworld st))) (trace (lworld (logs_exit_state (logs_recv_loop env rs st))))"

definition is_logs_loop_call :: "call \<Rightarrow> bool" where
  "is_logs_loop_call c =
     (case c of StreamRecv n \<Rightarrow> True | WriterWrite n l \<Rightarrow> True | ZwFlush n \<Rightarrow> True
      | DbInsertLineToPreview n i m \<Rightarrow> True | _ \<Rightarrow> False)"

definition logs_tail_calls ::
  "env \<Rightarrow> string \<Rightarrow> recv_result list \<Rightarrow> logs_loop_state \<Rightarrow> call list" where
  "logs_tail_calls env f rs st =
     (case logs_recv_loop env rs st of
        LBlocked st' \<Rightarrow> []
      | LReturn st' \<Rightarrow> [ZwClose f, FClose f, ConnClose] @ logs_close_calls (ltask st')
      | LPanic st' \<Rightarrow> [ZwClose f, FClose f, ConnClose] @ logs_close_calls (ltask st'))"

definition logs_setup_calls :: "env \<Rightarrow> logs_Task \<Rightarrow> call list" where
  "logs_setup_calls env t =
     GrpcDial (logs_address t) #
     (if fails env (GrpcDial (logs_address t)) \<noteq> None then []
      else SearchLog (req t) #
     (if fails env (SearchLog (req t)) \<noteq> None then []
      else OsMkdirAll (logs_dir_of env t) #
     (if fails env (OsMkdirAll (logs_dir_of env t)) \<noteq> None then []
      else OsCreate (logs_savedPath_of env t) #
     (if fails env (OsCreate (logs_savedPath_of env t)) \<noteq> None then []
      else [ZwCreate (logs_savedPath_of env t) (logs_logFilename t)]))))"

definition run_calls :: "env \<Rightarrow> Task \<Rightarrow> world \<Rightarrow> call list" where
  "run_calls env t w = new_calls w (world_of (run env t w))"

definition logs_run_calls :: "env \<Rightarrow> logs_Task \<Rightarrow> world \<Rightarrow> call list" where
  "logs_run_calls env t w = new_calls w (logs_world_of (logs_run env t w))"

definition example_stream :: "recv_result list" where
  "example_stream = [RecvMessages [example_msg], RecvEOF]"

definition mkdir_denied :: "call \<Rightarrow> string option" where
  "mkdir_denied c =
     (case c of OsMkdirAll d \<Rightarrow> Some ''mkdir /tmp/dashboard-logs: permission denied''
      | _ \<Rightarrow> None)"

definition dial_refused :: "call \<Rightarrow> string option" where
  "dial_refused c =
     (case c of GrpcDial a \<Rightarrow> Some ''dial tcp 10.0.0.1:20160: connect: connection refused''
      | _ \<Rightarrow> None)"

definition example_logs_task :: logs_Task where
  "example_logs_task =
     logs_NewTask \<lparr>serverType = ''tikv'', ip = ''10.0.0.1'', port = ''20160'', req = ''req''\<rparr>
       ''g1'' ''t1''"

definition long_kind :: string where
  "long_kind = replicate 65536 (CHR ''x'')"

definition name_too_long :: "call \<Rightarrow> string option" where
  "name_too_long c =
     (case c of
        ZwCreate p n \<Rightarrow> if 65535 < length n then Some ''zip: FileHeader.Name too long'' else None
      | _ \<Rightarrow> None)"

definition long_kind_task :: Task where
  "long_kind_task =
     NewTask \<lparr>ServerType = long_kind, IP = ''10.0.0.1'', Port = ''20160'', StatusPort = ''20180''\<rparr>
       ''g1'' ''req'' ''t1'' 1583064000"

definition preview_insert_fails :: "call \<Rightarrow> string option" where
  "preview_insert_fails c =
     (case c of DbNewPreview n i m \<Rightarrow> Some ''database is locked'' | _ \<Rightarrow> None)"

definition has_panicked :: "logs_status \<Rightarrow> bool" where
  "has_panicked s = (case s of LPanicked t w \<Rightarrow> True | _ \<Rightarrow> False)"

definition line_breaks :: "string \<Rightarrow> nat" where
  "line_breaks s = count_list s (CHR 10)"

definition level_name :: "env \<Rightarrow> LogMessage \<Rightarrow> string" where
  "level_name env msg = (case LogLevel_name env (Level msg) of None \<Rightarrow> [] | Some n \<Rightarrow> n)"

definition two_line_msg :: LogMessage where
  "two_line_msg = \<lparr>Time = 0, Level = 2, Message = ''first'' @ [CHR 10] @ ''second''\<rparr>"

text \<open>What a zip reader finds at a path: the entries, when the file is there and
  \<open>zw.Close()\<close> has written its central directory.\<close>

definition archive_entries :: "world \<Rightarrow> string \<Rightarrow> (string \<times> string list) list option" where
  "archive_entries w p = (case fs w p of Some (ZipFile es True) \<Rightarrow> Some es | _ \<Rightarrow> None)"

definition zip_close_fails :: "call \<Rightarrow> string option" where
  "zip_close_fails c =
     (case c of
        ZwClose p \<Rightarrow> Some ''write /tmp/dashboard-logs/g1/10.0.0.1-20160.zip: no space left on device''
      | _ \<Rightarrow> None)"

definition create_denied :: "call \<Rightarrow> string option" where
  "create_denied c =
     (case c of
        OsCreate p \<Rightarrow> Some ''open /tmp/dashboard-logs/g1/10.0.0.1-20160.zip: permission denied''
      | _ \<Rightarrow> None)"

text \<open>Whether a call builds the sink or closes the connection.\<close>

definition is_sink_or_close :: "call \<Rightarrow> bool" where
  "is_sink_or_close c = (is_sink_call c \<or> c = ConnClose)"

text \<open>The messages of the preview calls that the store accepted, in the order of the
  calls.\<close>

definition stored_msgs :: "env \<Rightarrow> call list \<Rightarrow> LogMessage list" where
  "stored_msgs env cs = preview_msgs (filter (\<lambda>c. fails env c = None) cs)"

text \<open>The store accepts every preview row.\<close>

definition preview_ok :: "env \<Rightarrow> bool" where
  "preview_ok env =
     ((\<forall>n i m. fails env (DbNewPreview n i m) = None) \<and>
      (\<forall>n i m. fails env (DbInsertLineToPreview n i m) = None))"

definition second_msg :: LogMessage where
  "second_msg = \<lparr>Time = 1583064001456, Level = 3, Message = ''slow query''\<rparr>"

definition first_preview_fails :: "call \<Rightarrow> string option" where
  "first_preview_fails c =
     (case c of
        DbNewPreview n i m \<Rightarrow> if n = 0 then Some ''database is locked'' else None
      | _ \<Rightarrow> None)"

definition two_message_stream :: "recv_result list" where
  "two_message_stream = [RecvMessages [example_msg, second_msg], RecvEOF]"

section \<open>Properties\<close>

subsection \<open>What each call leaves behind\<close>

lemma example_paths:
  "path_Join [''/tmp/dashboard-logs'', ''g1''] = ''/tmp/dashboard-logs/g1''"
  "path_Join [''/tmp'', ''dashboard-logs'', ''g1''] = ''/tmp/dashboard-logs/g1''"
  "path_Join [''/tmp/dashboard-logs/g1'', ''10.0.0.1-20160.zip''] =
     ''/tmp/dashboard-logs/g1/10.0.0.1-20160.zip''"
  by code_simp+

lemma called_proj [simp]:
  "trace (called c w) = trace w @ [c]"
  "fs (called c w) = fs w"
  "store_tasks (called c w) = store_tasks w"
  "store_previews (called c w) = store_previews w"
  by (simp_all add: called_def)

lemma grpc_Dial_proj [simp]:
  "fst (grpc_Dial env a w) = called (GrpcDial a) w"
  "snd (grpc_Dial env a w) = fails env (GrpcDial a)"
  by (simp_all add: grpc_Dial_def)

lemma cli_SearchLog_proj [simp]:
  "fst (cli_SearchLog env r w) = called (SearchLog r) w"
  "snd (cli_SearchLog env r w) = fails env (SearchLog r)"
  by (simp_all add: cli_SearchLog_def)

lemma zw_Flush_proj [simp]:
  "fst (zw_Flush env n w) = called (ZwFlush n) w"
  "snd (zw_Flush env n w) = fails env (ZwFlush n)"
  by (simp_all add: zw_Flush_def)

lemma os_MkdirAll_proj [simp]:
  "snd (os_MkdirAll env d w) = fails env (OsMkdirAll d)"
  "trace (fst (os_MkdirAll env d w)) = trace w @ [OsMkdirAll d]"
  "fs (fst (os_MkdirAll env d w)) =
     (if fails env (OsMkdirAll d) = None then (fs w)(d \<mapsto> Dir) else fs w)"
  "store_tasks (fst (os_MkdirAll env d w)) = store_tasks w"
  "store_previews (fst (os_MkdirAll env d w)) = store_previews w"
  by (simp_all add: os_MkdirAll_def Let_def split: option.split)

lemma os_Create_proj [simp]:
  "snd (os_Create env p w) = fails env (OsCreate p)"
  "trace (fst (os_Create env p w)) = trace w @ [OsCreate p]"
  "fs (fst (os_Create env p w)) =
     (if fails env (OsCreate p) = None then (fs w)(p \<mapsto> ZipFile [] False) else fs w)"
  "store_tasks (fst (os_Create env p w)) = store_tasks w"
  "store_previews (fst (os_Create env p w)) = store_previews w"
  by (simp_all add: os_Create_def Let_def split: option.split)

lemma zw_Create_proj [simp]:
  "snd (zw_Create env p n w) = fails env (ZwCreate p n)"
  "trace (fst (zw_Create env p n w)) = trace w @ [ZwCreate p n]"
  "fs (fst (zw_Create env p n w)) =
     (if fails env (ZwCreate p n) = None then (fs w)(p := add_entry n (fs w p)) else fs w)"
  "store_tasks (fst (zw_Create env p n w)) = store_tasks w"
  "store_previews (fst (zw_Create env p n w)) = store_previews w"
  by (simp_all add: zw_Create_def Let_def split: option.split)

lemma writer_Write_proj [simp]:
  "snd (writer_Write env n p l w) = fails env (WriterWrite n l)"
  "trace (fst (writer_Write env n p l w)) = trace w @ [WriterWrite n l]"
  "fs (fst (writer_Write env n p l w)) =
     (if fails env (WriterWrite n l) = None then (fs w)(p := add_line l (fs w p)) else fs w)"
  "store_tasks (fst (writer_Write env n p l w)) = store_tasks w"
  "store_previews (fst (writer_Write env n p l w)) = store_previews w"
  by (simp_all add: writer_Write_def Let_def split: option.split)

lemma os_RemoveAll_proj [simp]:
  "snd (os_RemoveAll env p w) = (if p = [] then None else fails env (OsRemoveAll p))"
  "trace (fst (os_RemoveAll env p w)) = trace w @ [OsRemoveAll p]"
  "fs (fst (os_RemoveAll env p w)) =
     (if p \<noteq> [] \<and> fails env (OsRemoveAll p) = None then remove_tree p (fs w) else fs w)"
  "store_tasks (fst (os_RemoveAll env p w)) = store_tasks w"
  "store_previews (fst (os_RemoveAll env p w)) = store_previews w"
  by (simp_all add: os_RemoveAll_def Let_def split: option.split)

lemma dbClient_deleteTask_proj [simp]:
  "trace (dbClient_deleteTask env m w) = trace w @ [DbDeleteTask m]"
  "fs (dbClient_deleteTask env m w) = fs w"
  "store_previews (dbClient_deleteTask env m w) = store_previews w"
  "store_tasks (dbClient_deleteTask env m w) =
     (if fails env (DbDeleteTask m) = None
      then filter (\<lambda>r. TaskID r \<noteq> TaskID m) (store_tasks w) else store_tasks w)"
  by (simp_all add: dbClient_deleteTask_def Let_def split: option.split)

lemma dbClient_createTask_proj [simp]:
  "trace (dbClient_createTask env m w) = trace w @ [DbCreateTask m]"
  "fs (dbClient_createTask env m w) = fs w"
  "store_previews (dbClient_createTask env m w) = store_previews w"
  "store_tasks (dbClient_createTask env m w) =
     (if fails env (DbCreateTask m) = None then store_tasks w @ [m] else store_tasks w)"
  by (simp_all add: dbClient_createTask_def Let_def split: option.split)

lemma dbClient_updateTask_proj [simp]:
  "trace (dbClient_updateTask env m w) = trace w @ [DbUpdateTask m]"
  "fs (dbClient_updateTask env m w) = fs w"
  "store_previews (dbClient_updateTask env m w) = store_previews w"
  "store_tasks (dbClient_updateTask env m w) =
     (if fails env (DbUpdateTask m) = None
      then map (\<lambda>r. if TaskID r = TaskID m then m else r) (store_tasks w) else store_tasks w)"
  by (simp_all add: dbClient_updateTask_def Let_def split: option.split)

lemma dbClient_cleanPreview_proj [simp]:
  "trace (dbClient_cleanPreview env i w) = trace w @ [DbCleanPreview i]"
  "fs (dbClient_cleanPreview env i w) = fs w"
  "store_tasks (dbClient_cleanPreview env i w) = store_tasks w"
  "store_previews (dbClient_cleanPreview env i w) =
     (if fails env (DbCleanPreview i) = None
      then filter (\<lambda>row. fst row \<noteq> i) (store_previews w) else store_previews w)"
  by (simp_all add: dbClient_cleanPreview_def Let_def split: option.split)

lemma dbClient_newPreview_proj [simp]:
  "trace (dbClient_newPreview env n i m w) = trace w @ [DbNewPreview n i m]"
  "fs (dbClient_newPreview env n i m w) = fs w"
  "store_tasks (dbClient_newPreview env n i m w) = store_tasks w"
  "store_previews (dbClient_newPreview env n i m w) =
     (if fails env (DbNewPreview n i m) = None
      then store_previews w @ [(i, m)] else store_previews w)"
  by (simp_all add: dbClient_newPreview_def Let_def split: option.split)

lemma run_deferred_trace [simp]: "trace (run_deferred env cs w) = trace w @ cs"
  unfolding run_deferred_def
  by (induction cs arbitrary: w) (simp_all add: deferred_call_def Let_def split: call.split option.split)

lemma run_deferred_store [simp]:
  "store_tasks (run_deferred env cs w) = store_tasks w"
  "store_previews (run_deferred env cs w) = store_previews w"
  unfolding run_deferred_def
  by (induction cs arbitrary: w) (simp_all add: deferred_call_def Let_def split: call.split option.split)

lemma run_deferred_fs_nil [simp]: "fs (run_deferred env [] w) = fs w"
  by (simp add: run_deferred_def)

lemma run_deferred_fs_conn [simp]: "fs (run_deferred env [ConnClose] w) = fs w"
  by (simp add: run_deferred_def deferred_call_def)

lemma run_deferred_fs_zip [simp]:
  "fs (run_deferred env [ZwClose p, FClose q, ConnClose] w) =
     (if fails env (ZwClose p) = None then (fs w)(p := finish_zip (fs w p)) else fs w)"
  by (simp add: run_deferred_def deferred_call_def Let_def split: option.split)

lemma truncate_proj [simp]:
  "TaskID (TaskModel.truncate t) = TaskID t"
  "State (TaskModel.truncate t) = State t"
  "Error (TaskModel.truncate t) = Error t"
  "SavedPath (TaskModel.truncate t) = SavedPath t"
  "StopTime (TaskModel.truncate t) = StopTime t"
  by (simp_all add: TaskModel.truncate_def)

lemma clean_proj [simp]:
  "trace (fst (clean env t w)) =
     trace w @ (if SavedPath t \<noteq> [] then [OsRemoveAll (SavedPath t)] else []) @
     (if SavedPath t = [] \<or> fails env (OsRemoveAll (SavedPath t)) = None
      then [DbCleanPreview (TaskID t)] else [])"
  "fs (fst (clean env t w)) =
     (if SavedPath t \<noteq> [] \<and> fails env (OsRemoveAll (SavedPath t)) = None
      then remove_tree (SavedPath t) (fs w) else fs w)"
  "store_tasks (fst (clean env t w)) = store_tasks w"
  "store_previews (fst (clean env t w)) =
     (if (SavedPath t = [] \<or> fails env (OsRemoveAll (SavedPath t)) = None) \<and>
         fails env (DbCleanPreview (TaskID t)) = None
      then filter (\<lambda>row. fst row \<noteq> TaskID t) (store_previews w) else store_previews w)"
  by (auto simp add: clean_def case_prod_beta split: option.split)

lemma close_fst:
  "fst (close env t w) =
     t\<lparr>StopTime := now_stop env,
       State := (if Error t \<noteq> [] then StateCanceled else StateFinished)\<rparr>"
  by (simp add: close_def Let_def)

lemma close_snd:
  "snd (close env t w) =
     dbClient_updateTask env (TaskModel.truncate (fst (close env t w)))
       (if Error t \<noteq> [] then fst (clean env t w) else w)"
  by (simp add: close_def Let_def)

lemma returns_eq:
  "returns env ds t w =
     Returned (fst (close env t (run_deferred env ds w))) (snd (close env t (run_deferred env ds w)))"
  by (simp add: returns_def split: prod.split)

lemma run_dial_fails:
  "fails env (GrpcDial (address (Component t))) = Some e \<Longrightarrow>
   run env t w =
     returns env [] (t\<lparr>cancel := True, Error := e\<rparr>) (called (GrpcDial (address (Component t))) w)"
  by (simp add: run_def Let_def case_prod_beta)

lemma run_open_fails:
  "fails env (GrpcDial (address (Component t))) = None \<Longrightarrow>
   fails env (SearchLog (Request t)) = Some e \<Longrightarrow>
   run env t w = returns env [ConnClose] (t\<lparr>cancel := True, Error := e\<rparr>) (after_connect env t w)"
  by (simp add: run_def Let_def case_prod_beta after_connect_def)

lemma run_connected:
  "connect_ok env t \<Longrightarrow> run env t w = run_sink env (t\<lparr>cancel := True\<rparr>) (after_connect env t w)"
  by (simp add: run_def Let_def case_prod_beta after_connect_def connect_ok_def)

lemma run_mkdir_fails:
  "connect_ok env t \<Longrightarrow> fails env (OsMkdirAll (dir_of env t)) = Some e \<Longrightarrow>
   run env t w = returns env [ConnClose] (t\<lparr>cancel := True, Error := e\<rparr>) (after_mkdir env t w)"
  by (simp add: run_connected run_sink_def Let_def case_prod_beta after_mkdir_def dir_of_def)

lemma run_create_fails:
  "connect_ok env t \<Longrightarrow> fails env (OsMkdirAll (dir_of env t)) = None \<Longrightarrow>
   fails env (OsCreate (savedPath_of env t)) = Some e \<Longrightarrow>
   run env t w = returns env [ConnClose] (t\<lparr>cancel := True, Error := e\<rparr>) (after_create env t w)"
  by (simp add: run_connected run_sink_def Let_def case_prod_beta after_mkdir_def after_create_def
      dir_of_def savedPath_of_def)

lemma run_zip_fails:
  "connect_ok env t \<Longrightarrow> fails env (OsMkdirAll (dir_of env t)) = None \<Longrightarrow>
   fails env (OsCreate (savedPath_of env t)) = None \<Longrightarrow>
   fails env (ZwCreate (savedPath_of env t) (logFilename (Component t))) = Some e \<Longrightarrow>
   run env t w =
     returns env [ZwClose (savedPath_of env t), FClose (savedPath_of env t), ConnClose]
       (t\<lparr>cancel := True, Error := e\<rparr>) (after_zip env t w)"
  by (simp add: run_connected run_sink_def Let_def case_prod_beta after_mkdir_def after_create_def
      after_zip_def dir_of_def savedPath_of_def)

lemma run_reaches_loop:
  "connect_ok env t \<Longrightarrow> sink_ok env t \<Longrightarrow>
   run env t w = run_receive env (stream env) (loop_start env t w)"
  by (simp add: run_connected run_sink_def run_start_def Let_def case_prod_beta after_mkdir_def
      after_create_def after_zip_def dir_of_def savedPath_of_def sink_ok_def loop_start_def
      running_task_def)

lemma status_returns [simp]:
  "has_returned (returns env ds t w)"
  "task_of (returns env ds t w) = fst (close env t (run_deferred env ds w))"
  "world_of (returns env ds t w) = snd (close env t (run_deferred env ds w))"
  by (simp_all add: returns_eq has_returned_def task_of_def world_of_def)

lemma close_trace:
  "trace (snd (close env t w)) = trace w @ close_calls env t"
  by (simp add: close_snd close_fst close_calls_def closed_task_def)


lemma preview_msgs_simps [simp]:
  "preview_msgs [] = []"
  "preview_msgs (c # cs) = preview_of c @ preview_msgs cs"
  "preview_msgs (a @ b) = preview_msgs a @ preview_msgs b"
  by (simp_all add: preview_msgs_def)

lemma written_ok_simps [simp]:
  "written_ok env [] = []"
  "written_ok env (c # cs) = (if fails env c = None then line_of c else []) @ written_ok env cs"
  "written_ok env (a @ b) = written_ok env a @ written_ok env b"
  by (simp_all add: written_ok_def written_lines_def)

lemma write_messages_frame [simp]:
  "zw (fst (write_messages env msgs st)) = zw st"
  "nbatch (fst (write_messages env msgs st)) = nbatch st"
  "store_tasks (world (fst (write_messages env msgs st))) = store_tasks (world st)"
  by (induction msgs arbitrary: st) (simp_all add: Let_def case_prod_beta split: option.split)

lemma write_messages_task_next:
  "\<not> snd (write_messages env msgs st) \<Longrightarrow> task (fst (write_messages env msgs st)) = task st"
  by (induction msgs arbitrary: st)
     (auto simp add: Let_def case_prod_beta split: option.splits if_splits)

lemma write_messages_task:
  "task (fst (write_messages env msgs st)) =
     (task st)\<lparr>Error := Error (task (fst (write_messages env msgs st)))\<rparr>"
proof (induction msgs arbitrary: st)
  case Nil
  show ?case by simp
next
  case (Cons msg msgs)
  show ?case
  proof (cases "fails env (WriterWrite (nwritten st) (toLine env msg))")
    case (Some e)
    then show ?thesis by (simp add: Let_def case_prod_beta)
  next
    case None
    define st1 where "st1 = st\<lparr>world := fst (writer_Write env (nwritten st) (zw st) (toLine env msg) (world st)),
                              nwritten := Suc (nwritten st)\<rparr>"
    define st2 where "st2 = (if previewLogLinesCount st1 < PreviewLogLinesLimit
                      then st1\<lparr>world := dbClient_newPreview env (previewLogLinesCount st1)
                                          (TaskID (task st1)) msg (world st1),
                               previewLogLinesCount := Suc (previewLogLinesCount st1)\<rparr>
                      else st1)"
    have step: "write_messages env (msg # msgs) st = write_messages env msgs st2"
      using None by (simp add: Let_def case_prod_beta st1_def st2_def)
    have "task st2 = task st" by (simp add: st2_def st1_def)
    with Cons.IH[of st2] show ?thesis unfolding step by simp
  qed
qed

lemma next_message:
  assumes "take (Suc k) (drop i M) = msg # msgs"
  shows "i < length M" and "M ! i = msg" and "take k (drop (Suc i) M) = msgs"
proof -
  from assms have ne: "drop i M \<noteq> []" by auto
  then show lt: "i < length M" by simp
  then have "drop i M = M ! i # drop (Suc i) M" by (simp add: Cons_nth_drop_Suc)
  with assms show "M ! i = msg" and "take k (drop (Suc i) M) = msgs" by simp_all
qed

lemma write_messages_inv:
  assumes "n \<le> length (trace (world st))"
    and "pinv env PreviewLogLinesLimit M (drop n (trace (world st))) (nwritten st)"
    and "previewLogLinesCount st = min PreviewLogLinesLimit (nwritten st)"
    and "take (length msgs) (drop (nwritten st) M) = msgs"
  shows "n \<le> length (trace (world (fst (write_messages env msgs st)))) \<and>
         pinv env PreviewLogLinesLimit M
           (drop n (trace (world (fst (write_messages env msgs st)))))
           (nwritten (fst (write_messages env msgs st))) \<and>
         (\<not> snd (write_messages env msgs st) \<longrightarrow>
            previewLogLinesCount (fst (write_messages env msgs st)) =
              min PreviewLogLinesLimit (nwritten (fst (write_messages env msgs st))) \<and>
            nwritten (fst (write_messages env msgs st)) = nwritten st + length msgs)"
  using assms
proof (induction msgs arbitrary: st)
  case Nil
  then show ?case by simp
next
  case (Cons msg msgs)
  let ?i = "nwritten st"
  let ?c = "WriterWrite ?i (toLine env msg)"
  from Cons.prems(4) have nx: "take (Suc (length msgs)) (drop ?i M) = msg # msgs" by simp
  note lt = next_message(1)[OF nx] and hd = next_message(2)[OF nx] and tl = next_message(3)[OF nx]
  show ?case
  proof (cases "fails env ?c")
    case (Some e)
    with Cons.prems(1,2) show ?thesis
      by (simp add: Let_def case_prod_beta pinv_def line_of_def preview_of_def)
  next
    case None
    define st1 where "st1 = st\<lparr>world := fst (writer_Write env ?i (zw st) (toLine env msg) (world st)),
                              nwritten := Suc ?i\<rparr>"
    define st2 where "st2 = (if previewLogLinesCount st1 < PreviewLogLinesLimit
                      then st1\<lparr>world := dbClient_newPreview env (previewLogLinesCount st1)
                                          (TaskID (task st1)) msg (world st1),
                               previewLogLinesCount := Suc (previewLogLinesCount st1)\<rparr>
                      else st1)"
    have step: "write_messages env (msg # msgs) st = write_messages env msgs st2"
      using None by (simp add: Let_def case_prod_beta st1_def st2_def)
    have tk: "take (Suc ?i) M = take ?i M @ [msg]"
      using lt hd by (simp add: take_Suc_conv_app_nth)
    have p1: "n \<le> length (trace (world st2))"
      using Cons.prems(1) by (simp add: st2_def st1_def)
    have p2: "pinv env PreviewLogLinesLimit M (drop n (trace (world st2))) (nwritten st2)"
    proof (cases "?i < PreviewLogLinesLimit")
      case True
      then have m: "min PreviewLogLinesLimit ?i = ?i" "min PreviewLogLinesLimit (Suc ?i) = Suc ?i"
        by simp_all
      show ?thesis
        using Cons.prems(1,2,3) None lt tk True
        by (simp add: st2_def st1_def pinv_def line_of_def preview_of_def m)
    next
      case False
      then have m: "min PreviewLogLinesLimit ?i = PreviewLogLinesLimit"
        "min PreviewLogLinesLimit (Suc ?i) = PreviewLogLinesLimit"
        by simp_all
      show ?thesis
        using Cons.prems(1,2,3) None lt tk False
        by (simp add: st2_def st1_def pinv_def line_of_def preview_of_def m)
    qed
    have p3: "previewLogLinesCount st2 = min PreviewLogLinesLimit (nwritten st2)"
      using Cons.prems(3) by (auto simp add: st2_def st1_def min_def)
    have p4: "take (length msgs) (drop (nwritten st2) M) = msgs"
      using tl by (simp add: st2_def st1_def)
    have n2: "nwritten st2 = Suc ?i" by (simp add: st2_def st1_def)
    from Cons.IH[OF p1 p2 p3 p4] show ?thesis
      unfolding step by (simp add: n2)
  qed
qed


lemma recv_loop_frame [simp]:
  "zw (exit_state (recv_loop env rs st)) = zw st"
  "store_tasks (world (exit_state (recv_loop env rs st))) = store_tasks (world st)"
proof (induction rs arbitrary: st)
  case Nil
  { case 1 show ?case by (simp add: exit_state_def) }
  { case 2 show ?case by (simp add: exit_state_def) }
next
  case (Cons r rs)
  { case 1 show ?case using Cons.IH(1)
      by (cases r) (simp_all add: exit_state_def Let_def case_prod_beta split: option.split bool.split) }
  { case 2 show ?case using Cons.IH(2)
      by (cases r) (simp_all add: exit_state_def Let_def case_prod_beta split: option.split bool.split) }
qed

lemma recv_loop_task:
  "task (exit_state (recv_loop env rs st)) =
     (task st)\<lparr>Error := Error (task (exit_state (recv_loop env rs st)))\<rparr>"
proof (induction rs arbitrary: st)
  case Nil
  show ?case by (simp add: exit_state_def)
next
  case (Cons r rs)
  let ?st0 = "st\<lparr>world := called (StreamRecv (nbatch st)) (world st)\<rparr>"
  let ?wm = "write_messages env (case r of RecvMessages msgs \<Rightarrow> msgs | _ \<Rightarrow> []) ?st0"
  show ?case
  proof (cases r)
    case RecvEOF
    then show ?thesis by (simp add: exit_state_def Let_def)
  next
    case (RecvError e)
    then show ?thesis by (simp add: exit_state_def Let_def)
  next
    case (RecvMessages msgs)
    have t1: "task (fst ?wm) = (task st)\<lparr>Error := Error (task (fst ?wm))\<rparr>"
      using write_messages_task[of env msgs ?st0] RecvMessages by simp
    show ?thesis
    proof (cases "snd ?wm")
      case True
      then show ?thesis using RecvMessages t1
        by (simp add: exit_state_def Let_def case_prod_beta)
    next
      case False
      then have t2: "task (fst ?wm) = task st"
        using write_messages_task_next[of env msgs ?st0] RecvMessages by simp
      show ?thesis
      proof (cases "fails env (ZwFlush (nbatch st))")
        case (Some e)
        then show ?thesis using RecvMessages False t2
          by (simp add: exit_state_def Let_def case_prod_beta)
      next
        case None
        let ?st2 = "(fst ?wm)\<lparr>world := called (ZwFlush (nbatch st)) (world (fst ?wm)),
                                 nbatch := Suc (nbatch st)\<rparr>"
        have "recv_loop env (r # rs) st = recv_loop env rs ?st2"
          using RecvMessages False None by (simp add: Let_def case_prod_beta)
        moreover have "task ?st2 = task st" using t2 by simp
        ultimately show ?thesis using Cons.IH[of ?st2] by simp
      qed
    qed
  qed
qed

lemma recv_loop_blocked_task:
  "recv_loop env rs st = Blocked st' \<Longrightarrow> task st' = task st"
proof (induction rs arbitrary: st)
  case Nil
  then show ?case by simp
next
  case (Cons r rs)
  let ?st0 = "st\<lparr>world := called (StreamRecv (nbatch st)) (world st)\<rparr>"
  show ?case
  proof (cases r)
    case RecvEOF
    with Cons.prems show ?thesis by (simp add: Let_def)
  next
    case (RecvError e)
    with Cons.prems show ?thesis by (simp add: Let_def)
  next
    case (RecvMessages msgs)
    let ?wm = "write_messages env msgs ?st0"
    let ?st2 = "(fst ?wm)\<lparr>world := called (ZwFlush (nbatch st)) (world (fst ?wm)),
                             nbatch := Suc (nbatch st)\<rparr>"
    from Cons.prems RecvMessages have ns: "\<not> snd ?wm" and fl: "fails env (ZwFlush (nbatch st)) = None"
      by (auto simp add: Let_def case_prod_beta split: option.splits bool.splits if_splits)
    then have "recv_loop env (r # rs) st = recv_loop env rs ?st2"
      using RecvMessages by (simp add: Let_def case_prod_beta)
    with Cons.prems have "task st' = task ?st2" using Cons.IH[of ?st2] by simp
    also have "\<dots> = task st" using write_messages_task_next[OF ns] by simp
    finally show ?thesis .
  qed
qed

lemma recv_loop_inv:
  assumes "n \<le> length (trace (world st))"
    and "pinv env PreviewLogLinesLimit M (drop n (trace (world st))) (nwritten st)"
    and "previewLogLinesCount st = min PreviewLogLinesLimit (nwritten st)"
    and "drop (nwritten st) M = stream_msgs rs"
  shows "n \<le> length (trace (world (exit_state (recv_loop env rs st)))) \<and>
         pinv env PreviewLogLinesLimit M
           (drop n (trace (world (exit_state (recv_loop env rs st)))))
           (nwritten (exit_state (recv_loop env rs st)))"
  using assms
proof (induction rs arbitrary: st)
  case Nil
  then show ?case by (simp add: exit_state_def)
next
  case (Cons r rs)
  let ?st0 = "st\<lparr>world := called (StreamRecv (nbatch st)) (world st)\<rparr>"
  have q1: "n \<le> length (trace (world ?st0))" using Cons.prems(1) by simp
  have q2: "pinv env PreviewLogLinesLimit M (drop n (trace (world ?st0))) (nwritten ?st0)"
    using Cons.prems(1,2) by (simp add: pinv_def line_of_def preview_of_def)
  have q3: "previewLogLinesCount ?st0 = min PreviewLogLinesLimit (nwritten ?st0)"
    using Cons.prems(3) by simp
  show ?case
  proof (cases r)
    case RecvEOF
    with q1 q2 show ?thesis by (simp add: exit_state_def Let_def)
  next
    case (RecvError e)
    with q1 q2 show ?thesis by (simp add: exit_state_def Let_def)
  next
    case (RecvMessages msgs)
    let ?wm = "write_messages env msgs ?st0"
    from Cons.prems(4) RecvMessages have q4: "take (length msgs) (drop (nwritten ?st0) M) = msgs"
      by simp
    note wi = write_messages_inv[OF q1 q2 q3 q4]
    show ?thesis
    proof (cases "snd ?wm")
      case True
      then show ?thesis using RecvMessages wi
        by (simp add: exit_state_def Let_def case_prod_beta)
    next
      case False
      show ?thesis
      proof (cases "fails env (ZwFlush (nbatch st))")
        case (Some e)
        then show ?thesis using RecvMessages False wi
          by (simp add: exit_state_def Let_def case_prod_beta pinv_def line_of_def preview_of_def)
      next
        case None
        let ?st2 = "(fst ?wm)\<lparr>world := called (ZwFlush (nbatch st)) (world (fst ?wm)),
                                 nbatch := Suc (nbatch st)\<rparr>"
        have step: "recv_loop env (r # rs) st = recv_loop env rs ?st2"
          using RecvMessages False None by (simp add: Let_def case_prod_beta)
        have r1: "n \<le> length (trace (world ?st2))" using wi by simp
        have r2: "pinv env PreviewLogLinesLimit M (drop n (trace (world ?st2))) (nwritten ?st2)"
          using wi by (simp add: pinv_def line_of_def preview_of_def)
        have r3: "previewLogLinesCount ?st2 = min PreviewLogLinesLimit (nwritten ?st2)"
          using wi False by simp
        have "nwritten ?st2 = nwritten st + length msgs" using wi False by simp
        then have r4: "drop (nwritten ?st2) M = stream_msgs rs"
          using Cons.prems(4) RecvMessages
          by (metis add.commute append_eq_conv_conj drop_drop stream_msgs.simps(2))
        from Cons.IH[OF r1 r2 r3 r4] show ?thesis unfolding step .
      qed
    qed
  qed
qed

lemma after_trace [simp]:
  "trace (after_connect env t w) =
     trace w @ [GrpcDial (address (Component t)), SearchLog (Request t)]"
  "trace (after_mkdir env t w) = trace (after_connect env t w) @ [OsMkdirAll (dir_of env t)]"
  "trace (after_create env t w) = trace (after_mkdir env t w) @ [OsCreate (savedPath_of env t)]"
  "trace (after_zip env t w) =
     trace (after_create env t w) @ [ZwCreate (savedPath_of env t) (logFilename (Component t))]"
  by (simp_all add: after_connect_def after_mkdir_def after_create_def after_zip_def)

lemma after_store [simp]:
  "store_previews (after_connect env t w) = store_previews w"
  "store_previews (after_mkdir env t w) = store_previews w"
  "store_previews (after_create env t w) = store_previews w"
  "store_previews (after_zip env t w) = store_previews w"
  "store_tasks (after_connect env t w) = store_tasks w"
  "store_tasks (after_mkdir env t w) = store_tasks w"
  "store_tasks (after_create env t w) = store_tasks w"
  "store_tasks (after_zip env t w) = store_tasks w"
  by (simp_all add: after_connect_def after_mkdir_def after_create_def after_zip_def)

lemma after_connect_fs [simp]: "fs (after_connect env t w) = fs w"
  by (simp add: after_connect_def)

lemma after_zip_fs:
  "sink_ok env t \<Longrightarrow>
   fs (after_zip env t w) (savedPath_of env t) =
     Some (ZipFile [(logFilename (Component t), [])] False)"
  by (simp add: after_zip_def after_create_def sink_ok_def add_entry_def)

lemma loop_start_proj [simp]:
  "task (loop_start env t w) = running_task env t"
  "zw (loop_start env t w) = savedPath_of env t"
  "previewLogLinesCount (loop_start env t w) = 0"
  "nwritten (loop_start env t w) = 0"
  "nbatch (loop_start env t w) = 0"
  "fs (world (loop_start env t w)) = fs (after_zip env t w)"
  "store_previews (world (loop_start env t w)) = store_previews w"
  "trace (world (loop_start env t w)) =
     trace (after_zip env t w) @
     [DbDeleteTask (TaskModel.truncate (running_task env t)),
      DbCreateTask (TaskModel.truncate (running_task env t))]"
  by (simp_all add: loop_start_def)

lemma running_task_proj [simp]:
  "Error (running_task env t) = Error t"
  "TaskID (running_task env t) = TaskID t"
  "SavedPath (running_task env t) = savedPath_of env t"
  "State (running_task env t) = StateRunning"
  "cancel (running_task env t) = True"
  "doneCh (running_task env t) = doneCh t"
  by (simp_all add: running_task_def)

lemma closed_task_proj [simp]:
  "Error (closed_task env t) = Error t"
  "TaskID (closed_task env t) = TaskID t"
  "SavedPath (closed_task env t) = SavedPath t"
  "State (closed_task env t) = (if Error t \<noteq> [] then StateCanceled else StateFinished)"
  "StopTime (closed_task env t) = now_stop env"
  "cancel (closed_task env t) = cancel t"
  "doneCh (closed_task env t) = doneCh t"
  by (simp_all add: closed_task_def)

lemma close_task: "fst (close env t w) = closed_task env t"
  by (simp add: close_fst closed_task_def)

lemma close_world:
  "snd (close env t w) =
     dbClient_updateTask env (TaskModel.truncate (closed_task env t))
       (if Error t \<noteq> [] then fst (clean env t w) else w)"
  by (simp add: close_snd close_task)

lemma example_values [simp]:
  "address (Component example_task) = ''10.0.0.1:20160''"
  "Request example_task = ''req''"
  "TaskID example_task = ''t1''"
  "Error example_task = []"
  "cancel example_task = False"
  "logFilename (Component example_task) = ''tikv.log''"
  "dir_of (example_env f rs) example_task = ''/tmp/dashboard-logs/g1''"
  "savedPath_of (example_env f rs) example_task = example_path"
  "fails (example_env f rs) = f"
  "stream (example_env f rs) = rs"
  "now_stop (example_env f rs) = 1583064002"
  by (simp_all add: address_def logFilename_def zipFilename_def dir_of_def savedPath_of_def
      example_paths example_task_def example_component_def example_env_def example_path_def
      NewTask_def)

lemma is_loop_call_simps [simp]:
  "is_loop_call (StreamRecv n)"
  "is_loop_call (ZwFlush n)"
  "is_loop_call (WriterWrite n l)"
  "is_loop_call (DbNewPreview n i m)"
  by (simp_all add: is_loop_call_def)

lemma is_recv_simps [simp]:
  "is_recv (StreamRecv n)"
  "\<not> is_recv (ZwFlush n)"
  "\<not> is_recv (WriterWrite n l)"
  "\<not> is_recv (DbNewPreview n i m)"
  by (simp_all add: is_recv_def)

lemma write_messages_trace:
  "\<exists>cs. trace (world (fst (write_messages env msgs st))) = trace (world st) @ cs \<and>
        list_all is_loop_call cs \<and> filter is_recv cs = []"
proof (induction msgs arbitrary: st)
  case Nil
  show ?case by simp
next
  case (Cons msg msgs)
  show ?case
  proof (cases "fails env (WriterWrite (nwritten st) (toLine env msg))")
    case (Some e)
    then show ?thesis by (simp add: Let_def case_prod_beta)
  next
    case None
    define st1 where "st1 = st\<lparr>world := fst (writer_Write env (nwritten st) (zw st) (toLine env msg) (world st)),
                              nwritten := Suc (nwritten st)\<rparr>"
    define st2 where "st2 = (if previewLogLinesCount st1 < PreviewLogLinesLimit
                      then st1\<lparr>world := dbClient_newPreview env (previewLogLinesCount st1)
                                          (TaskID (task st1)) msg (world st1),
                               previewLogLinesCount := Suc (previewLogLinesCount st1)\<rparr>
                      else st1)"
    have step: "write_messages env (msg # msgs) st = write_messages env msgs st2"
      using None by (simp add: Let_def case_prod_beta st1_def st2_def)
    have "\<exists>cs. trace (world st2) = trace (world st) @ cs \<and> list_all is_loop_call cs \<and>
            filter is_recv cs = []"
      by (simp add: st2_def st1_def)
    then obtain cs where a: "trace (world st2) = trace (world st) @ cs"
      "list_all is_loop_call cs" "filter is_recv cs = []" by blast
    from Cons.IH[of st2] obtain ds where b:
      "trace (world (fst (write_messages env msgs st2))) = trace (world st2) @ ds"
      "list_all is_loop_call ds" "filter is_recv ds = []" by blast
    show ?thesis unfolding step using a b by simp
  qed
qed

lemma write_messages_io_ok:
  "io_ok env \<Longrightarrow> \<not> snd (write_messages env msgs st) \<and>
     nwritten (fst (write_messages env msgs st)) = nwritten st + length msgs"
  by (induction msgs arbitrary: st) (simp_all add: io_ok_def Let_def case_prod_beta)

lemma recv_loop_trace:
  "\<exists>cs. trace (world (exit_state (recv_loop env rs st))) = trace (world st) @ cs \<and>
        list_all is_loop_call cs"
proof (induction rs arbitrary: st)
  case Nil
  show ?case by (simp add: exit_state_def)
next
  case (Cons r rs)
  let ?st0 = "st\<lparr>world := called (StreamRecv (nbatch st)) (world st)\<rparr>"
  show ?case
  proof (cases r)
    case RecvEOF
    then show ?thesis by (simp add: exit_state_def Let_def)
  next
    case (RecvError e)
    then show ?thesis by (simp add: exit_state_def Let_def)
  next
    case (RecvMessages msgs)
    let ?wm = "write_messages env msgs ?st0"
    from write_messages_trace[of env msgs ?st0] obtain cs where
      a: "trace (world (fst ?wm)) = trace (world st) @ StreamRecv (nbatch st) # cs"
      "list_all is_loop_call cs" by auto
    show ?thesis
    proof (cases "snd ?wm")
      case True
      then show ?thesis using RecvMessages a
        by (simp add: exit_state_def Let_def case_prod_beta)
    next
      case False
      show ?thesis
      proof (cases "fails env (ZwFlush (nbatch st))")
        case (Some e)
        then show ?thesis using RecvMessages False a
          by (simp add: exit_state_def Let_def case_prod_beta)
      next
        case None
        let ?st2 = "(fst ?wm)\<lparr>world := called (ZwFlush (nbatch st)) (world (fst ?wm)),
                                 nbatch := Suc (nbatch st)\<rparr>"
        have step: "recv_loop env (r # rs) st = recv_loop env rs ?st2"
          using RecvMessages False None by (simp add: Let_def case_prod_beta)
        from Cons.IH[of ?st2] obtain ds where
          b: "trace (world (exit_state (recv_loop env rs ?st2))) = trace (world ?st2) @ ds"
          "list_all is_loop_call ds" by blast
        show ?thesis unfolding step using a b by simp
      qed
    qed
  qed
qed

lemma loop_calls_trace:
  "trace (world (exit_state (recv_loop env rs st))) = trace (world st) @ loop_calls env rs st"
  using recv_loop_trace[of env rs st] by (auto simp add: loop_calls_def)

lemma loop_calls_only: "list_all is_loop_call (loop_calls env rs st)"
  using recv_loop_trace[of env rs st] by (auto simp add: loop_calls_def)

lemma loop_calls_filter [simp]:
  "filter is_dial (loop_calls env rs st) = []"
  "filter is_open (loop_calls env rs st) = []"
  "filter is_sink_call (loop_calls env rs st) = []"
  using loop_calls_only[of env rs st]
  by (auto simp add: filter_empty_conv list_all_iff is_loop_call_def is_dial_def is_open_def
      is_sink_call_def split: call.splits)

lemma loop_calls_pinv:
  "pinv env PreviewLogLinesLimit (stream_msgs rs) (loop_calls env rs (loop_start env t w))
     (nwritten (exit_state (recv_loop env rs (loop_start env t w))))"
proof -
  let ?st = "loop_start env t w"
  let ?n = "length (trace (world ?st))"
  have "pinv env PreviewLogLinesLimit (stream_msgs rs) (drop ?n (trace (world ?st))) (nwritten ?st)"
    by (simp add: pinv_def)
  from recv_loop_inv[OF le_refl this, of rs] show ?thesis
    by (simp add: loop_calls_def)
qed

lemma recv_loop_io_ok:
  "io_ok env \<Longrightarrow>
   nwritten (exit_state (recv_loop env rs st)) = nwritten st + length (stream_msgs rs)"
proof (induction rs arbitrary: st)
  case Nil
  show ?case by (simp add: exit_state_def)
next
  case (Cons r rs)
  let ?st0 = "st\<lparr>world := called (StreamRecv (nbatch st)) (world st)\<rparr>"
  show ?case
  proof (cases r)
    case RecvEOF
    then show ?thesis by (simp add: exit_state_def Let_def)
  next
    case (RecvError e)
    then show ?thesis by (simp add: exit_state_def Let_def)
  next
    case (RecvMessages msgs)
    let ?wm = "write_messages env msgs ?st0"
    let ?st2 = "(fst ?wm)\<lparr>world := called (ZwFlush (nbatch st)) (world (fst ?wm)),
                             nbatch := Suc (nbatch st)\<rparr>"
    note ok = write_messages_io_ok[OF Cons.prems, of msgs ?st0]
    have fl: "fails env (ZwFlush (nbatch st)) = None" using Cons.prems by (simp add: io_ok_def)
    have step: "recv_loop env (r # rs) st = recv_loop env rs ?st2"
      using RecvMessages ok fl by (simp add: Let_def case_prod_beta)
    show ?thesis unfolding step using Cons.IH[OF Cons.prems, of ?st2] ok RecvMessages by simp
  qed
qed

lemma quiet_close_calls [simp]: "quiet env (close_calls env t)"
  by (simp add: quiet_def close_calls_def is_dial_def is_open_def is_sink_call_def is_recv_def
      preview_of_def line_of_def)

lemma quiet_append [simp]: "quiet env (a @ b) = (quiet env a \<and> quiet env b)"
  by (auto simp add: quiet_def)

lemma quiet_simps [simp]:
  "quiet env []"
  "quiet env (ConnClose # cs) = quiet env cs"
  "quiet env (ZwClose p # cs) = quiet env cs"
  "quiet env (FClose p # cs) = quiet env cs"
  "quiet env (DbDeleteTask m # cs) = quiet env cs"
  "quiet env (DbCreateTask m # cs) = quiet env cs"
  by (simp_all add: quiet_def is_dial_def is_open_def is_sink_call_def is_recv_def
      preview_of_def line_of_def)

lemma quiet_tail_calls [simp]: "quiet env (tail_calls env rs st)"
  by (simp add: tail_calls_def split: loop_exit.split)

lemma returns_trace:
  "trace (world_of (returns env ds t w)) = trace w @ ds @ close_calls env t"
  by (simp add: close_trace)

lemma run_receive_trace:
  "trace (world_of (run_receive env rs st)) =
     trace (world st) @ loop_calls env rs st @ tail_calls env rs st"
proof (cases "recv_loop env rs st")
  case (Blocked st')
  then show ?thesis
    using loop_calls_trace[of env rs st]
    by (simp add: run_receive_def tail_calls_def world_of_def exit_state_def)
next
  case (Return st')
  then show ?thesis
    using loop_calls_trace[of env rs st]
    by (simp add: run_receive_def tail_calls_def close_trace exit_state_def)
qed

lemma run_calls_setup_failed:
  assumes "\<not> (connect_ok env t \<and> sink_ok env t)"
  shows "\<exists>cs. new_calls w (world_of (run env t w)) = setup_calls env t @ cs \<and> quiet env cs"
proof (cases "fails env (GrpcDial (address (Component t)))")
  case (Some e)
  then show ?thesis
    by (simp add: run_dial_fails close_trace new_calls_def setup_calls_def)
next
  case d: None
  show ?thesis
  proof (cases "fails env (SearchLog (Request t))")
    case (Some e)
    then show ?thesis using d
      by (simp add: run_open_fails close_trace new_calls_def setup_calls_def)
  next
    case s: None
    have c: "connect_ok env t" using d s by (simp add: connect_ok_def)
    show ?thesis
    proof (cases "fails env (OsMkdirAll (dir_of env t))")
      case (Some e)
      then show ?thesis using d s
        by (simp add: run_mkdir_fails[OF c] close_trace new_calls_def setup_calls_def)
    next
      case m: None
      show ?thesis
      proof (cases "fails env (OsCreate (savedPath_of env t))")
        case (Some e)
        then show ?thesis using d s m
          by (simp add: run_create_fails[OF c] close_trace new_calls_def setup_calls_def)
      next
        case f: None
        from assms c m f obtain e where
          z: "fails env (ZwCreate (savedPath_of env t) (logFilename (Component t))) = Some e"
          by (auto simp add: sink_ok_def)
        then show ?thesis using d s m f
          by (simp add: run_zip_fails[OF c] close_trace new_calls_def setup_calls_def)
      qed
    qed
  qed
qed

lemma run_calls_loop:
  assumes "connect_ok env t" and "sink_ok env t"
  shows "new_calls w (world_of (run env t w)) =
           setup_calls env t @
           [DbDeleteTask (TaskModel.truncate (running_task env t)),
            DbCreateTask (TaskModel.truncate (running_task env t))] @
           loop_calls env (stream env) (loop_start env t w) @
           tail_calls env (stream env) (loop_start env t w)"
  using assms
  by (simp add: run_reaches_loop run_receive_trace new_calls_def setup_calls_def connect_ok_def
      sink_ok_def)

lemma db_startTask_proj [simp]:
  "fst (db_startTask env i p g w) = called (DbStartTask i p g) w"
  "snd (db_startTask env i p g w) = fails env (DbStartTask i p g)"
  by (simp_all add: db_startTask_def)

lemma db_insertLineToPreview_proj [simp]:
  "snd (db_insertLineToPreview env n i m w) = fails env (DbInsertLineToPreview n i m)"
  "trace (fst (db_insertLineToPreview env n i m w)) = trace w @ [DbInsertLineToPreview n i m]"
  "fs (fst (db_insertLineToPreview env n i m w)) = fs w"
  "store_tasks (fst (db_insertLineToPreview env n i m w)) = store_tasks w"
  "store_previews (fst (db_insertLineToPreview env n i m w)) =
     (if fails env (DbInsertLineToPreview n i m) = None
      then store_previews w @ [(i, m)] else store_previews w)"
  by (simp_all add: db_insertLineToPreview_def Let_def split: option.split)

lemma logs_close_proj [simp]:
  "trace (logs_close env t w) = trace w @ logs_close_calls t"
  "fs (logs_close env t w) =
     (if err t \<noteq> None \<and> savedPath t \<noteq> [] \<and> fails env (OsRemoveAll (savedPath t)) = None
      then remove_tree (savedPath t) (fs w) else fs w)"
  "store_previews (logs_close env t w) = store_previews w"
  "store_tasks (logs_close env t w) = store_tasks w"
  by (auto simp add: logs_close_def logs_close_calls_def db_cancelTask_def db_finishTask_def
      split: option.split)

lemma CreateFile_mkdir_fails:
  "fails env (OsMkdirAll (logs_dir_of env t)) = Some e \<Longrightarrow>
   CreateFile env t w =
     (t, fst (os_MkdirAll env (logs_dir_of env t) w), Inl e)"
  by (simp add: CreateFile_def Let_def case_prod_beta logs_dir_of_def)

lemma CreateFile_create_fails:
  "fails env (OsMkdirAll (logs_dir_of env t)) = None \<Longrightarrow>
   fails env (OsCreate (logs_savedPath_of env t)) = Some e \<Longrightarrow>
   CreateFile env t w =
     (t, fst (os_Create env (logs_savedPath_of env t)
                (fst (os_MkdirAll env (logs_dir_of env t) w))), Inl e)"
  by (simp add: CreateFile_def Let_def case_prod_beta logs_dir_of_def logs_savedPath_of_def)

lemma CreateFile_zip_fails:
  "fails env (OsMkdirAll (logs_dir_of env t)) = None \<Longrightarrow>
   fails env (OsCreate (logs_savedPath_of env t)) = None \<Longrightarrow>
   fails env (ZwCreate (logs_savedPath_of env t) (logs_logFilename t)) = Some e \<Longrightarrow>
   CreateFile env t w =
     (t, fst (zw_Create env (logs_savedPath_of env t) (logs_logFilename t)
                (fst (os_Create env (logs_savedPath_of env t)
                   (fst (os_MkdirAll env (logs_dir_of env t) w))))), Inl e)"
  by (simp add: CreateFile_def Let_def case_prod_beta logs_dir_of_def logs_savedPath_of_def)

lemma CreateFile_ok:
  "logs_sink_ok env t \<Longrightarrow>
   CreateFile env t w =
     (t\<lparr>writer := Some (logs_savedPath_of env t), savedPath := logs_savedPath_of env t\<rparr>,
      fst (zw_Create env (logs_savedPath_of env t) (logs_logFilename t)
             (fst (os_Create env (logs_savedPath_of env t)
                (fst (os_MkdirAll env (logs_dir_of env t) w))))),
      Inr (logs_savedPath_of env t, logs_savedPath_of env t))"
  by (simp add: CreateFile_def Let_def case_prod_beta logs_dir_of_def logs_savedPath_of_def
      logs_sink_ok_def)

lemma logs_names_cancel [simp]:
  "logs_address (t\<lparr>cancel' := b\<rparr>) = logs_address t"
  "logs_zipFilename (t\<lparr>cancel' := b\<rparr>) = logs_zipFilename t"
  "logs_logFilename (t\<lparr>cancel' := b\<rparr>) = logs_logFilename t"
  "logs_dir_of env (t\<lparr>cancel' := b\<rparr>) = logs_dir_of env t"
  "logs_savedPath_of env (t\<lparr>cancel' := b\<rparr>) = logs_savedPath_of env t"
  by (simp_all add: logs_address_def logs_zipFilename_def logs_logFilename_def logs_dir_of_def
      logs_savedPath_of_def)

lemma logs_run_dial_fails:
  "fails env (GrpcDial (logs_address t)) = Some e \<Longrightarrow>
   logs_run env t w =
     logs_returns env [] (t\<lparr>cancel' := True, err := Some e\<rparr>)
       (called (GrpcDial (logs_address t)) w)"
  by (simp add: logs_run_def Let_def case_prod_beta)

lemma logs_run_open_fails:
  "fails env (GrpcDial (logs_address t)) = None \<Longrightarrow>
   fails env (SearchLog (req t)) = Some e \<Longrightarrow>
   logs_run env t w =
     logs_returns env [ConnClose] (t\<lparr>cancel' := True, err := Some e\<rparr>)
       (logs_after_connect env t w)"
  by (simp add: logs_run_def Let_def case_prod_beta logs_after_connect_def)

lemma logs_run_mkdir_fails:
  "logs_connect_ok env t \<Longrightarrow> fails env (OsMkdirAll (logs_dir_of env t)) = Some e \<Longrightarrow>
   logs_run env t w =
     logs_returns env [ConnClose] (t\<lparr>cancel' := True, err := Some e\<rparr>)
       (logs_after_mkdir env t w)"
  by (simp add: logs_run_def Let_def case_prod_beta logs_after_connect_def logs_after_mkdir_def
      logs_connect_ok_def CreateFile_mkdir_fails)

lemma logs_run_create_fails:
  "logs_connect_ok env t \<Longrightarrow> fails env (OsMkdirAll (logs_dir_of env t)) = None \<Longrightarrow>
   fails env (OsCreate (logs_savedPath_of env t)) = Some e \<Longrightarrow>
   logs_run env t w =
     logs_returns env [ConnClose] (t\<lparr>cancel' := True, err := Some e\<rparr>)
       (logs_after_create env t w)"
  by (simp add: logs_run_def Let_def case_prod_beta logs_after_connect_def logs_after_mkdir_def
      logs_after_create_def logs_connect_ok_def CreateFile_create_fails)

lemma logs_run_zip_fails:
  "logs_connect_ok env t \<Longrightarrow> fails env (OsMkdirAll (logs_dir_of env t)) = None \<Longrightarrow>
   fails env (OsCreate (logs_savedPath_of env t)) = None \<Longrightarrow>
   fails env (ZwCreate (logs_savedPath_of env t) (logs_logFilename t)) = Some e \<Longrightarrow>
   logs_run env t w =
     logs_returns env [ConnClose] (t\<lparr>cancel' := True, err := Some e\<rparr>)
       (logs_after_zip env t w)"
  by (simp add: logs_run_def Let_def case_prod_beta logs_after_connect_def logs_after_mkdir_def
      logs_after_create_def logs_after_zip_def logs_connect_ok_def CreateFile_zip_fails)

lemma logs_run_start_fails:
  "logs_connect_ok env t \<Longrightarrow> logs_sink_ok env t \<Longrightarrow>
   fails env (DbStartTask (id' t) (logs_savedPath_of env t) (taskGroupID t)) = Some e \<Longrightarrow>
   logs_run env t w =
     logs_returns env
       [ZwClose (logs_savedPath_of env t), FClose (logs_savedPath_of env t), ConnClose]
       ((logs_running_task env t)\<lparr>err := Some e\<rparr>) (logs_after_start env t w)"
  by (simp add: logs_run_def Let_def case_prod_beta logs_after_connect_def logs_after_mkdir_def
      logs_after_create_def logs_after_zip_def logs_after_start_def logs_connect_ok_def
      logs_sink_ok_def CreateFile_ok logs_running_task_def)

lemma logs_run_reaches_loop:
  "logs_connect_ok env t \<Longrightarrow> logs_sink_ok env t \<Longrightarrow> logs_start_ok env t \<Longrightarrow>
   logs_run env t w =
     logs_run_receive env (logs_savedPath_of env t) (stream env) (logs_loop_start env t w)"
  by (simp add: logs_run_def Let_def case_prod_beta logs_after_connect_def logs_after_mkdir_def
      logs_after_create_def logs_after_zip_def logs_after_start_def logs_connect_ok_def
      logs_sink_ok_def logs_start_ok_def CreateFile_ok logs_running_task_def logs_loop_start_def)

lemma is_logs_loop_call_simps [simp]:
  "is_logs_loop_call (StreamRecv n)"
  "is_logs_loop_call (ZwFlush n)"
  "is_logs_loop_call (WriterWrite n l)"
  "is_logs_loop_call (DbInsertLineToPreview n i m)"
  by (simp_all add: is_logs_loop_call_def)

lemma logs_write_messages_inv:
  assumes "n \<le> length (trace (lworld st))"
    and "pinv env logs_PreviewLogLinesLimit M (drop n (trace (lworld st))) (lwritten st)"
    and "lcount st = min logs_PreviewLogLinesLimit (lwritten st)"
    and "take (length msgs) (drop (lwritten st) M) = msgs"
  shows "n \<le> length (trace (lworld (fst (logs_write_messages env msgs st)))) \<and>
         pinv env logs_PreviewLogLinesLimit M
           (drop n (trace (lworld (fst (logs_write_messages env msgs st)))))
           (lwritten (fst (logs_write_messages env msgs st))) \<and>
         ltask (fst (logs_write_messages env msgs st)) =
           (ltask st)\<lparr>err := err (ltask (fst (logs_write_messages env msgs st)))\<rparr> \<and>
         lbatch (fst (logs_write_messages env msgs st)) = lbatch st \<and>
         (snd (logs_write_messages env msgs st) = Next \<longrightarrow>
            ltask (fst (logs_write_messages env msgs st)) = ltask st \<and>
            lcount (fst (logs_write_messages env msgs st)) =
              min logs_PreviewLogLinesLimit (lwritten (fst (logs_write_messages env msgs st))) \<and>
            lwritten (fst (logs_write_messages env msgs st)) = lwritten st + length msgs)"
  using assms
proof (induction msgs arbitrary: st)
  case Nil
  then show ?case by simp
next
  case (Cons msg msgs)
  let ?i = "lwritten st"
  let ?K = "logs_PreviewLogLinesLimit"
  from Cons.prems(4) have nx: "take (Suc (length msgs)) (drop ?i M) = msg # msgs" by simp
  note lt = next_message(1)[OF nx] and hd = next_message(2)[OF nx] and tl = next_message(3)[OF nx]
  have tk: "take (Suc ?i) M = take ?i M @ [msg]"
    using lt hd by (simp add: take_Suc_conv_app_nth)
  show ?case
  proof (cases "writer (ltask st)")
    case None
    then have eq: "logs_write_messages env (msg # msgs) st = (st, Panic)" by simp
    show ?thesis unfolding eq
        using Cons.prems(1,2) by simp
  next
    case (Some p)
    note wp = Some
    show ?thesis
    proof (cases "fails env (WriterWrite ?i (toLine env msg))")
      case (Some e)
      have eq: "logs_write_messages env (msg # msgs) st =
          (st\<lparr>ltask := (ltask st)\<lparr>err := Some e\<rparr>,
              lworld := fst (writer_Write env ?i p (toLine env msg) (lworld st))\<rparr>, Ret)"
        using wp Some by (simp add: Let_def case_prod_beta)
      show ?thesis unfolding eq
        using Cons.prems(1,2) Some by (simp add: pinv_def line_of_def preview_of_def)
    next
      case wr: None
      define st1 where "st1 = st\<lparr>lworld := fst (writer_Write env ?i p (toLine env msg) (lworld st)),
                                lwritten := Suc ?i\<rparr>"
      have s1: "n \<le> length (trace (lworld st1))" "lwritten st1 = Suc ?i" "lcount st1 = lcount st"
        "ltask st1 = ltask st" "lbatch st1 = lbatch st"
        "written_ok env (drop n (trace (lworld st1))) = map (toLine env) (take (Suc ?i) M)"
        "preview_msgs (drop n (trace (lworld st1))) = take (min ?K ?i) M"
        using Cons.prems(1,2) wr tk by (simp_all add: st1_def pinv_def line_of_def preview_of_def)
      show ?thesis
      proof (cases "?i < ?K")
        case True
        then have m: "min ?K ?i = ?i" "min ?K (Suc ?i) = Suc ?i" by simp_all
        have cnt: "lcount st = ?i" "lcount st1 < ?K" using Cons.prems(3) True s1 by simp_all
        let ?ins = "db_insertLineToPreview env (lcount st1) (id' (ltask st1)) msg (lworld st1)"
        show ?thesis
        proof (cases "fails env (DbInsertLineToPreview (lcount st1) (id' (ltask st1)) msg)")
          case (Some e)
          have eq: "logs_write_messages env (msg # msgs) st =
                  (st1\<lparr>ltask := (ltask st1)\<lparr>err := Some e\<rparr>, lworld := fst ?ins\<rparr>, Ret)"
            using wp wr cnt Some by (simp add: Let_def case_prod_beta st1_def)
          show ?thesis unfolding eq
            using s1(1) lt Some by (simp add: s1(2-7) m cnt tk pinv_def line_of_def preview_of_def)
        next
          case None
          define st2 where "st2 = st1\<lparr>lworld := fst ?ins, lcount := Suc (lcount st1)\<rparr>"
          have step: "logs_write_messages env (msg # msgs) st = logs_write_messages env msgs st2"
            using wp wr cnt None by (simp add: Let_def case_prod_beta st1_def st2_def)
          have p1: "n \<le> length (trace (lworld st2))" using s1 by (simp add: st2_def)
          have p2: "pinv env ?K M (drop n (trace (lworld st2))) (lwritten st2)"
            using s1 lt m cnt tk by (simp add: st2_def pinv_def line_of_def preview_of_def)
          have p3: "lcount st2 = min ?K (lwritten st2)" using cnt m s1 by (simp add: st2_def)
          have p4: "take (length msgs) (drop (lwritten st2) M) = msgs"
            using tl s1 by (simp add: st2_def)
          have fr: "ltask st2 = ltask st" "lbatch st2 = lbatch st" "lwritten st2 = Suc ?i"
            using s1 by (simp_all add: st2_def)
          from Cons.IH[OF p1 p2 p3 p4] show ?thesis unfolding step by (simp add: fr)
        qed
      next
        case False
        then have m: "min ?K ?i = ?K" "min ?K (Suc ?i) = ?K" by simp_all
        have cnt: "\<not> lcount st1 < ?K" using Cons.prems(3) False s1 by simp
        have step: "logs_write_messages env (msg # msgs) st = logs_write_messages env msgs st1"
          using wp wr cnt by (simp add: Let_def case_prod_beta st1_def)
        have p2: "pinv env ?K M (drop n (trace (lworld st1))) (lwritten st1)"
          using s1 lt m by (simp add: pinv_def)
        have p3: "lcount st1 = min ?K (lwritten st1)" using Cons.prems(3) m s1 by simp
        have p4: "take (length msgs) (drop (lwritten st1) M) = msgs" using tl s1 by simp
        from Cons.IH[OF s1(1) p2 p3 p4] show ?thesis unfolding step by (simp add: s1)
      qed
    qed
  qed
qed

lemma logs_write_messages_trace:
  "\<exists>cs. trace (lworld (fst (logs_write_messages env msgs st))) = trace (lworld st) @ cs \<and>
        list_all is_logs_loop_call cs"
proof (induction msgs arbitrary: st)
  case Nil
  show ?case by simp
next
  case (Cons msg msgs)
  show ?case
  proof (cases "writer (ltask st)")
    case None
    then have eq: "logs_write_messages env (msg # msgs) st = (st, Panic)" by simp
    show ?thesis unfolding eq by simp
  next
    case (Some p)
    note wp = Some
    show ?thesis
    proof (cases "fails env (WriterWrite (lwritten st) (toLine env msg))")
      case (Some e)
      have eq: "logs_write_messages env (msg # msgs) st =
          (st\<lparr>ltask := (ltask st)\<lparr>err := Some e\<rparr>,
              lworld := fst (writer_Write env (lwritten st) p (toLine env msg) (lworld st))\<rparr>, Ret)"
        using wp Some by (simp add: Let_def case_prod_beta)
      show ?thesis unfolding eq by simp
    next
      case wr: None
      define st1 where "st1 = st\<lparr>lworld := fst (writer_Write env (lwritten st) p (toLine env msg) (lworld st)),
                                lwritten := Suc (lwritten st)\<rparr>"
      have t1: "trace (lworld st1) = trace (lworld st) @ [WriterWrite (lwritten st) (toLine env msg)]"
        by (simp add: st1_def)
      let ?ins = "db_insertLineToPreview env (lcount st1) (id' (ltask st1)) msg (lworld st1)"
      show ?thesis
      proof (cases "lcount st1 < logs_PreviewLogLinesLimit")
        case False
        have step: "logs_write_messages env (msg # msgs) st = logs_write_messages env msgs st1"
          using wp wr False by (simp add: Let_def case_prod_beta st1_def)
        from Cons.IH[of st1] obtain ds where
          "trace (lworld (fst (logs_write_messages env msgs st1))) = trace (lworld st1) @ ds"
          "list_all is_logs_loop_call ds" by blast
        then show ?thesis unfolding step using t1 by simp
      next
        case True
        show ?thesis
        proof (cases "fails env (DbInsertLineToPreview (lcount st1) (id' (ltask st1)) msg)")
          case (Some e)
          have eq: "logs_write_messages env (msg # msgs) st =
                  (st1\<lparr>ltask := (ltask st1)\<lparr>err := Some e\<rparr>, lworld := fst ?ins\<rparr>, Ret)"
            using wp wr True Some by (simp add: Let_def case_prod_beta st1_def)
          show ?thesis unfolding eq using t1 by simp
        next
          case None
          define st2 where "st2 = st1\<lparr>lworld := fst ?ins, lcount := Suc (lcount st1)\<rparr>"
          have step: "logs_write_messages env (msg # msgs) st = logs_write_messages env msgs st2"
            using wp wr True None by (simp add: Let_def case_prod_beta st1_def st2_def)
          have t2: "trace (lworld st2) = trace (lworld st) @
              [WriterWrite (lwritten st) (toLine env msg),
               DbInsertLineToPreview (lcount st1) (id' (ltask st1)) msg]"
            using t1 by (simp add: st2_def)
          from Cons.IH[of st2] obtain ds where
            "trace (lworld (fst (logs_write_messages env msgs st2))) = trace (lworld st2) @ ds"
            "list_all is_logs_loop_call ds" by blast
          then show ?thesis unfolding step using t2 by simp
        qed
      qed
    qed
  qed
qed

lemma logs_recv_loop_inv:
  assumes "n \<le> length (trace (lworld st))"
    and "pinv env logs_PreviewLogLinesLimit M (drop n (trace (lworld st))) (lwritten st)"
    and "lcount st = min logs_PreviewLogLinesLimit (lwritten st)"
    and "drop (lwritten st) M = stream_msgs rs"
  shows "n \<le> length (trace (lworld (logs_exit_state (logs_recv_loop env rs st)))) \<and>
         pinv env logs_PreviewLogLinesLimit M
           (drop n (trace (lworld (logs_exit_state (logs_recv_loop env rs st)))))
           (lwritten (logs_exit_state (logs_recv_loop env rs st)))"
  using assms
proof (induction rs arbitrary: st)
  case Nil
  then show ?case by (simp add: logs_exit_state_def)
next
  case (Cons r rs)
  let ?K = "logs_PreviewLogLinesLimit"
  let ?st0 = "st\<lparr>lworld := called (StreamRecv (lbatch st)) (lworld st)\<rparr>"
  have q1: "n \<le> length (trace (lworld ?st0))" using Cons.prems(1) by simp
  have q2: "pinv env ?K M (drop n (trace (lworld ?st0))) (lwritten ?st0)"
    using Cons.prems(1,2) by (simp add: pinv_def line_of_def preview_of_def)
  have q3: "lcount ?st0 = min ?K (lwritten ?st0)" using Cons.prems(3) by simp
  show ?case
  proof (cases r)
    case RecvEOF
    with q1 q2 show ?thesis by (simp add: logs_exit_state_def Let_def)
  next
    case (RecvError e)
    with q1 q2 show ?thesis by (simp add: logs_exit_state_def Let_def)
  next
    case (RecvMessages msgs)
    let ?wm = "logs_write_messages env msgs ?st0"
    from Cons.prems(4) RecvMessages have q4: "take (length msgs) (drop (lwritten ?st0) M) = msgs"
      by simp
    note wi = logs_write_messages_inv[OF q1 q2 q3 q4]
    have w1: "n \<le> length (trace (lworld (fst ?wm)))"
      and w2: "pinv env ?K M (drop n (trace (lworld (fst ?wm)))) (lwritten (fst ?wm))"
      and w3: "lbatch (fst ?wm) = lbatch st"
      using wi by simp_all
    show ?thesis
    proof (cases "snd ?wm")
      case Panic
      then have eq: "logs_recv_loop env (r # rs) st = LPanic (fst ?wm)"
        using RecvMessages by (simp add: Let_def case_prod_beta)
      show ?thesis unfolding eq using w1 w2 by (simp add: logs_exit_state_def)
    next
      case Ret
      then have eq: "logs_recv_loop env (r # rs) st = LReturn (fst ?wm)"
        using RecvMessages by (simp add: Let_def case_prod_beta)
      show ?thesis unfolding eq using w1 w2 by (simp add: logs_exit_state_def)
    next
      case Next
      then have n1: "lcount (fst ?wm) = min ?K (lwritten (fst ?wm))"
        and n2: "lwritten (fst ?wm) = lwritten st + length msgs"
        using wi by simp_all
      show ?thesis
      proof (cases "zw' (ltask (fst ?wm))")
        case None
        then have eq: "logs_recv_loop env (r # rs) st = LPanic (fst ?wm)"
          using RecvMessages Next by (simp add: Let_def case_prod_beta)
        show ?thesis unfolding eq using w1 w2 by (simp add: logs_exit_state_def)
      next
        case (Some p)
        show ?thesis
        proof (cases "fails env (ZwFlush (lbatch st))")
          case (Some e)
          then have eq: "logs_recv_loop env (r # rs) st =
              LReturn ((fst ?wm)\<lparr>ltask := (ltask (fst ?wm))\<lparr>err := Some e\<rparr>,
                                 lworld := called (ZwFlush (lbatch st)) (lworld (fst ?wm))\<rparr>)"
            using RecvMessages Next \<open>zw' (ltask (fst ?wm)) = Some p\<close> w3
            by (simp add: Let_def case_prod_beta)
          show ?thesis unfolding eq using w1 w2
            by (simp add: logs_exit_state_def pinv_def line_of_def preview_of_def)
        next
          case None
          define st2 where "st2 = (fst ?wm)\<lparr>lworld := called (ZwFlush (lbatch st)) (lworld (fst ?wm)),
                                 lbatch := Suc (lbatch st)\<rparr>"
          have step: "logs_recv_loop env (r # rs) st = logs_recv_loop env rs st2"
            using RecvMessages Next \<open>zw' (ltask (fst ?wm)) = Some p\<close> w3 None
            by (simp add: Let_def case_prod_beta st2_def)
          have r1: "n \<le> length (trace (lworld st2))" using w1 by (simp add: st2_def)
          have r2: "pinv env ?K M (drop n (trace (lworld st2))) (lwritten st2)"
            using w1 w2 by (simp add: st2_def pinv_def line_of_def preview_of_def)
          have r3: "lcount st2 = min ?K (lwritten st2)" by (simp add: st2_def n1)
          have "lwritten st2 = lwritten st + length msgs" by (simp add: st2_def n2)
          then have r4: "drop (lwritten st2) M = stream_msgs rs"
            using Cons.prems(4) RecvMessages
            by (metis add.commute append_eq_conv_conj drop_drop stream_msgs.simps(2))
          from Cons.IH[OF r1 r2 r3 r4] show ?thesis unfolding step .
        qed
      qed
    qed
  qed
qed

lemma logs_recv_loop_trace:
  "\<exists>cs. trace (lworld (logs_exit_state (logs_recv_loop env rs st))) = trace (lworld st) @ cs \<and>
        list_all is_logs_loop_call cs"
proof (induction rs arbitrary: st)
  case Nil
  show ?case by (simp add: logs_exit_state_def)
next
  case (Cons r rs)
  let ?st0 = "st\<lparr>lworld := called (StreamRecv (lbatch st)) (lworld st)\<rparr>"
  show ?case
  proof (cases r)
    case RecvEOF
    then show ?thesis by (simp add: logs_exit_state_def Let_def)
  next
    case (RecvError e)
    then show ?thesis by (simp add: logs_exit_state_def Let_def)
  next
    case (RecvMessages msgs)
    let ?wm = "logs_write_messages env msgs ?st0"
    from logs_write_messages_trace[of env msgs ?st0] obtain cs where
      a: "trace (lworld (fst ?wm)) = trace (lworld st) @ StreamRecv (lbatch st) # cs"
      "list_all is_logs_loop_call cs" by auto
    show ?thesis
    proof (cases "snd ?wm = Next \<and> zw' (ltask (fst ?wm)) \<noteq> None \<and>
                  fails env (ZwFlush (lbatch (fst ?wm))) = None")
      case True
      define st2 where "st2 = (fst ?wm)\<lparr>lworld := called (ZwFlush (lbatch (fst ?wm))) (lworld (fst ?wm)),
                                 lbatch := Suc (lbatch (fst ?wm))\<rparr>"
      have step: "logs_recv_loop env (r # rs) st = logs_recv_loop env rs st2"
        using RecvMessages True by (auto simp add: Let_def case_prod_beta st2_def)
      from Cons.IH[of st2] obtain ds where
        b: "trace (lworld (logs_exit_state (logs_recv_loop env rs st2))) = trace (lworld st2) @ ds"
        "list_all is_logs_loop_call ds" by blast
      show ?thesis unfolding step using a b by (simp add: st2_def)
    next
      case False
      then have "\<exists>x. logs_exit_state (logs_recv_loop env (r # rs) st) = x \<and>
           (trace (lworld x) = trace (lworld (fst ?wm)) \<or>
            trace (lworld x) = trace (lworld (fst ?wm)) @ [ZwFlush (lbatch (fst ?wm))])"
        using RecvMessages
        by (auto simp add: Let_def case_prod_beta logs_exit_state_def
            split: flow.splits option.splits)
      then show ?thesis using a by auto
    qed
  qed
qed

lemma logs_loop_calls_trace:
  "trace (lworld (logs_exit_state (logs_recv_loop env rs st))) =
     trace (lworld st) @ logs_loop_calls env rs st"
  using logs_recv_loop_trace[of env rs st] by (auto simp add: logs_loop_calls_def)

lemma logs_loop_calls_only: "list_all is_logs_loop_call (logs_loop_calls env rs st)"
  using logs_recv_loop_trace[of env rs st] by (auto simp add: logs_loop_calls_def)

lemma logs_loop_calls_filter [simp]:
  "filter is_dial (logs_loop_calls env rs st) = []"
  "filter is_open (logs_loop_calls env rs st) = []"
  "filter is_sink_call (logs_loop_calls env rs st) = []"
  using logs_loop_calls_only[of env rs st]
  by (auto simp add: filter_empty_conv list_all_iff is_logs_loop_call_def is_dial_def is_open_def
      is_sink_call_def split: call.splits)

lemma quiet_logs [simp]:
  "quiet env (logs_close_calls t)"
  "quiet env (DbStartTask i p g # cs) = quiet env cs"
  by (simp_all add: quiet_def logs_close_calls_def is_dial_def is_open_def is_sink_call_def
      is_recv_def preview_of_def line_of_def split: option.split)

lemma quiet_logs_tail_calls [simp]: "quiet env (logs_tail_calls env f rs st)"
  by (simp add: logs_tail_calls_def split: logs_loop_exit.split)

lemma logs_after_trace [simp]:
  "trace (logs_after_connect env t w) = trace w @ [GrpcDial (logs_address t), SearchLog (req t)]"
  "trace (logs_after_mkdir env t w) =
     trace (logs_after_connect env t w) @ [OsMkdirAll (logs_dir_of env t)]"
  "trace (logs_after_create env t w) =
     trace (logs_after_mkdir env t w) @ [OsCreate (logs_savedPath_of env t)]"
  "trace (logs_after_zip env t w) =
     trace (logs_after_create env t w) @ [ZwCreate (logs_savedPath_of env t) (logs_logFilename t)]"
  "trace (logs_after_start env t w) =
     trace (logs_after_zip env t w) @
     [DbStartTask (id' t) (logs_savedPath_of env t) (taskGroupID t)]"
  by (simp_all add: logs_after_connect_def logs_after_mkdir_def logs_after_create_def
      logs_after_zip_def logs_after_start_def)

lemma logs_status_proj [simp]:
  "logs_world_of (logs_returns env ds t w) = logs_close env t (run_deferred env ds w)"
  "logs_world_of (logs_panics env ds t w) = logs_close env t (run_deferred env ds w)"
  "logs_task_of (logs_returns env ds t w) = t"
  "logs_task_of (logs_panics env ds t w) = t"
  by (simp_all add: logs_world_of_def logs_task_of_def logs_returns_def logs_panics_def)

lemma logs_loop_start_proj [simp]:
  "ltask (logs_loop_start env t w) = logs_running_task env t"
  "lworld (logs_loop_start env t w) = logs_after_start env t w"
  "lcount (logs_loop_start env t w) = 0"
  "lwritten (logs_loop_start env t w) = 0"
  "lbatch (logs_loop_start env t w) = 0"
  by (simp_all add: logs_loop_start_def)

lemma logs_run_receive_trace:
  "trace (logs_world_of (logs_run_receive env f rs st)) =
     trace (lworld st) @ logs_loop_calls env rs st @ logs_tail_calls env f rs st"
  using logs_loop_calls_trace[of env rs st]
  by (cases "logs_recv_loop env rs st")
     (simp_all add: logs_run_receive_def logs_tail_calls_def logs_exit_state_def logs_world_of_def
        logs_returns_def logs_panics_def)

lemma logs_run_calls_setup_failed:
  assumes "\<not> (logs_connect_ok env t \<and> logs_sink_ok env t)"
  shows "\<exists>cs. new_calls w (logs_world_of (logs_run env t w)) = logs_setup_calls env t @ cs \<and>
              quiet env cs"
proof (cases "fails env (GrpcDial (logs_address t))")
  case (Some e)
  then show ?thesis
    by (simp add: logs_run_dial_fails new_calls_def logs_setup_calls_def)
next
  case d: None
  show ?thesis
  proof (cases "fails env (SearchLog (req t))")
    case (Some e)
    then show ?thesis using d
      by (simp add: logs_run_open_fails new_calls_def logs_setup_calls_def)
  next
    case s: None
    have c: "logs_connect_ok env t" using d s by (simp add: logs_connect_ok_def)
    show ?thesis
    proof (cases "fails env (OsMkdirAll (logs_dir_of env t))")
      case (Some e)
      then show ?thesis using d s
        by (simp add: logs_run_mkdir_fails[OF c] new_calls_def logs_setup_calls_def)
    next
      case m: None
      show ?thesis
      proof (cases "fails env (OsCreate (logs_savedPath_of env t))")
        case (Some e)
        then show ?thesis using d s m
          by (simp add: logs_run_create_fails[OF c] new_calls_def logs_setup_calls_def)
      next
        case f: None
        from assms c m f obtain e where
          z: "fails env (ZwCreate (logs_savedPath_of env t) (logs_logFilename t)) = Some e"
          by (auto simp add: logs_sink_ok_def)
        then show ?thesis using d s m f
          by (simp add: logs_run_zip_fails[OF c] new_calls_def logs_setup_calls_def)
      qed
    qed
  qed
qed

lemma logs_run_calls_start_failed:
  assumes "logs_connect_ok env t" and "logs_sink_ok env t" and "\<not> logs_start_ok env t"
  shows "\<exists>cs. new_calls w (logs_world_of (logs_run env t w)) = logs_setup_calls env t @ cs \<and>
              quiet env cs"
proof -
  from assms(3) obtain e where
    "fails env (DbStartTask (id' t) (logs_savedPath_of env t) (taskGroupID t)) = Some e"
    by (auto simp add: logs_start_ok_def)
  then show ?thesis using assms(1,2)
    by (simp add: logs_run_start_fails new_calls_def logs_setup_calls_def logs_connect_ok_def
        logs_sink_ok_def)
qed

lemma logs_run_calls_loop:
  assumes "logs_connect_ok env t" and "logs_sink_ok env t" and "logs_start_ok env t"
  shows "new_calls w (logs_world_of (logs_run env t w)) =
           logs_setup_calls env t @
           [DbStartTask (id' t) (logs_savedPath_of env t) (taskGroupID t)] @
           logs_loop_calls env (stream env) (logs_loop_start env t w) @
           logs_tail_calls env (logs_savedPath_of env t) (stream env) (logs_loop_start env t w)"
  using assms
  by (simp add: logs_run_reaches_loop logs_run_receive_trace new_calls_def logs_setup_calls_def
      logs_connect_ok_def logs_sink_ok_def)

lemma setup_calls_silent [simp]:
  "preview_msgs (setup_calls env t) = []"
  "written_ok env (setup_calls env t) = []"
  "preview_msgs (logs_setup_calls env u) = []"
  "written_ok env (logs_setup_calls env u) = []"
  by (simp_all add: setup_calls_def logs_setup_calls_def preview_of_def line_of_def)

lemma logs_loop_calls_pinv:
  "pinv env logs_PreviewLogLinesLimit (stream_msgs rs)
     (logs_loop_calls env rs (logs_loop_start env t w))
     (lwritten (logs_exit_state (logs_recv_loop env rs (logs_loop_start env t w))))"
proof -
  let ?st = "logs_loop_start env t w"
  let ?n = "length (trace (lworld ?st))"
  have "pinv env logs_PreviewLogLinesLimit (stream_msgs rs) (drop ?n (trace (lworld ?st)))
          (lwritten ?st)"
    by (simp add: pinv_def)
  from logs_recv_loop_inv[OF le_refl this, of rs] show ?thesis
    by (simp add: logs_loop_calls_def)
qed

lemma pinv_quiet:
  "pinv env K M cs nw \<Longrightarrow> preview_msgs a = [] \<Longrightarrow> written_ok env a = [] \<Longrightarrow> quiet env b \<Longrightarrow>
   pinv env K M (a @ cs @ b) nw"
  by (simp add: pinv_def quiet_def)

lemma pinv_nil: "preview_msgs a = [] \<Longrightarrow> written_ok env a = [] \<Longrightarrow> pinv env K M a 0"
  by (simp add: pinv_def)

lemma run_pinv:
  "\<exists>nw. pinv env PreviewLogLinesLimit (stream_msgs (stream env))
          (new_calls w (world_of (run env t w))) nw"
proof (cases "connect_ok env t \<and> sink_ok env t")
  case False
  from run_calls_setup_failed[OF False, of w] obtain cs where
    "new_calls w (world_of (run env t w)) = setup_calls env t @ cs" "quiet env cs" by blast
  then have "pinv env PreviewLogLinesLimit (stream_msgs (stream env))
               (new_calls w (world_of (run env t w))) 0"
    by (simp add: pinv_def quiet_def)
  then show ?thesis ..
next
  case True
  have "pinv env PreviewLogLinesLimit (stream_msgs (stream env))
          ((setup_calls env t @
            [DbDeleteTask (TaskModel.truncate (running_task env t)),
             DbCreateTask (TaskModel.truncate (running_task env t))]) @
           loop_calls env (stream env) (loop_start env t w) @
           tail_calls env (stream env) (loop_start env t w))
          (nwritten (exit_state (recv_loop env (stream env) (loop_start env t w))))"
    by (rule pinv_quiet[OF loop_calls_pinv]) (simp_all add: preview_of_def line_of_def)
  then show ?thesis using True by (auto simp add: run_calls_loop)
qed

lemma logs_run_pinv:
  "\<exists>nw. pinv env logs_PreviewLogLinesLimit (stream_msgs (stream env))
          (new_calls w (logs_world_of (logs_run env t w))) nw"
proof (cases "logs_connect_ok env t \<and> logs_sink_ok env t \<and> logs_start_ok env t")
  case False
  then have "\<exists>cs. new_calls w (logs_world_of (logs_run env t w)) = logs_setup_calls env t @ cs \<and>
              quiet env cs"
    using logs_run_calls_setup_failed[of env t w] logs_run_calls_start_failed[of env t w] by blast
  then obtain cs where
    "new_calls w (logs_world_of (logs_run env t w)) = logs_setup_calls env t @ cs" "quiet env cs"
    by blast
  then have "pinv env logs_PreviewLogLinesLimit (stream_msgs (stream env))
               (new_calls w (logs_world_of (logs_run env t w))) 0"
    by (simp add: pinv_def quiet_def)
  then show ?thesis ..
next
  case True
  have "pinv env logs_PreviewLogLinesLimit (stream_msgs (stream env))
          ((logs_setup_calls env t @
            [DbStartTask (id' t) (logs_savedPath_of env t) (taskGroupID t)]) @
           logs_loop_calls env (stream env) (logs_loop_start env t w) @
           logs_tail_calls env (logs_savedPath_of env t) (stream env) (logs_loop_start env t w))
          (lwritten (logs_exit_state (logs_recv_loop env (stream env) (logs_loop_start env t w))))"
    by (rule pinv_quiet[OF logs_loop_calls_pinv]) (simp_all add: preview_of_def line_of_def)
  then show ?thesis using True by (auto simp add: logs_run_calls_loop)
qed

lemma pinv_facts:
  assumes "pinv env K M cs nw"
  shows "length (preview_msgs cs) \<le> K"
    and "preview_msgs cs = take (min K (length (written_ok env cs))) M"
    and "written_ok env cs = map (toLine env) (take (length (written_ok env cs)) M)"
proof -
  from assms have a: "nw \<le> length M" "written_ok env cs = map (toLine env) (take nw M)"
    "preview_msgs cs = take (min K nw) M" by (simp_all add: pinv_def)
  from a(1,2) have l: "length (written_ok env cs) = nw" by simp
  show "length (preview_msgs cs) \<le> K" using a(3) by simp
  show "preview_msgs cs = take (min K (length (written_ok env cs))) M" using a(3) l by simp
  show "written_ok env cs = map (toLine env) (take (length (written_ok env cs)) M)"
    using a(2) l by simp
qed

lemma run_writes_all:
  assumes "connect_ok env t" and "sink_ok env t" and "io_ok env"
  shows "written_ok env (new_calls w (world_of (run env t w))) =
           map (toLine env) (stream_msgs (stream env))"
proof -
  let ?st = "loop_start env t w"
  have n: "nwritten (exit_state (recv_loop env (stream env) ?st)) =
             length (stream_msgs (stream env))"
    using recv_loop_io_ok[OF assms(3), of "stream env" ?st] by simp
  have "written_ok env (loop_calls env (stream env) ?st) =
          map (toLine env) (stream_msgs (stream env))"
    using loop_calls_pinv[of env "stream env" t w] by (simp add: pinv_def n)
  moreover have "written_ok env (tail_calls env (stream env) ?st) = []"
    using quiet_tail_calls[of env "stream env" ?st] by (simp add: quiet_def)
  ultimately show ?thesis using assms(1,2)
    by (simp add: run_calls_loop line_of_def)
qed

lemma example_line:
  "toLine (example_env f rs) example_msg =
     ''[2020/03/01 12:00:00.123 +00:00] [Info] ready'' @ [CHR 10]"
proof -
  have "utc_Format 1583064000123000000 = ''2020/03/01 12:00:00.123 +00:00''" by code_simp
  then show ?thesis
    unfolding toLine_def example_env_def example_msg_def by (simp add: kv_LogLevel_name_def)
qed

lemma example_ok [simp]:
  "connect_ok (example_env no_failure rs) example_task"
  "sink_ok (example_env no_failure rs) example_task"
  "io_ok (example_env no_failure rs)"
  by (simp_all add: connect_ok_def sink_ok_def io_ok_def no_failure_def)

lemma run_calls_setup:
  "\<exists>cs. run_calls env t w = setup_calls env t @ cs \<and>
        filter is_dial cs = [] \<and> filter is_open cs = [] \<and> filter is_sink_call cs = []"
proof (cases "connect_ok env t \<and> sink_ok env t")
  case False
  from run_calls_setup_failed[OF False, of w] show ?thesis
    by (auto simp add: run_calls_def quiet_def)
next
  case True
  let ?cs = "[DbDeleteTask (TaskModel.truncate (running_task env t)),
            DbCreateTask (TaskModel.truncate (running_task env t))] @
           loop_calls env (stream env) (loop_start env t w) @
           tail_calls env (stream env) (loop_start env t w)"
  have "run_calls env t w = setup_calls env t @ ?cs"
    using True by (simp add: run_calls_def run_calls_loop)
  moreover have "filter is_dial ?cs = [] \<and> filter is_open ?cs = [] \<and> filter is_sink_call ?cs = []"
    using quiet_tail_calls[of env "stream env" "loop_start env t w"]
    by (simp add: quiet_def is_dial_def is_open_def is_sink_call_def)
  ultimately show ?thesis by blast
qed

lemma logs_run_calls_setup:
  "\<exists>cs. logs_run_calls env t w = logs_setup_calls env t @ cs \<and>
        filter is_dial cs = [] \<and> filter is_open cs = [] \<and> filter is_sink_call cs = []"
proof (cases "logs_connect_ok env t \<and> logs_sink_ok env t \<and> logs_start_ok env t")
  case False
  then have "\<exists>cs. new_calls w (logs_world_of (logs_run env t w)) = logs_setup_calls env t @ cs \<and>
              quiet env cs"
    using logs_run_calls_setup_failed[of env t w] logs_run_calls_start_failed[of env t w] by blast
  then show ?thesis by (auto simp add: logs_run_calls_def quiet_def)
next
  case True
  let ?cs = "[DbStartTask (id' t) (logs_savedPath_of env t) (taskGroupID t)] @
           logs_loop_calls env (stream env) (logs_loop_start env t w) @
           logs_tail_calls env (logs_savedPath_of env t) (stream env) (logs_loop_start env t w)"
  have "logs_run_calls env t w = logs_setup_calls env t @ ?cs"
    using True by (simp add: logs_run_calls_def logs_run_calls_loop)
  moreover have "filter is_dial ?cs = [] \<and> filter is_open ?cs = [] \<and> filter is_sink_call ?cs = []"
    using quiet_logs_tail_calls[of env "logs_savedPath_of env t" "stream env" "logs_loop_start env t w"]
    by (simp add: quiet_def is_dial_def is_open_def is_sink_call_def)
  ultimately show ?thesis by blast
qed

lemma setup_calls_shape:
  "take 1 (setup_calls env t) = [GrpcDial (address (Component t))]"
  "\<not> connect_ok env t \<Longrightarrow> filter is_sink_call (setup_calls env t) = []"
  "connect_ok env t \<Longrightarrow>
     take 3 (setup_calls env t) =
       [GrpcDial (address (Component t)), SearchLog (Request t), OsMkdirAll (dir_of env t)]"
  "filter is_dial (setup_calls env t) = [GrpcDial (address (Component t))]"
  "connect_ok env t \<Longrightarrow> filter is_open (setup_calls env t) = [SearchLog (Request t)]"
  by (auto simp add: setup_calls_def connect_ok_def is_sink_call_def is_dial_def is_open_def)

lemma logs_setup_calls_shape:
  "take 1 (logs_setup_calls env t) = [GrpcDial (logs_address t)]"
  "\<not> logs_connect_ok env t \<Longrightarrow> filter is_sink_call (logs_setup_calls env t) = []"
  "logs_connect_ok env t \<Longrightarrow>
     take 3 (logs_setup_calls env t) =
       [GrpcDial (logs_address t), SearchLog (req t), OsMkdirAll (logs_dir_of env t)]"
  by (auto simp add: logs_setup_calls_def logs_connect_ok_def is_sink_call_def)

lemma example_logs_values [simp]:
  "logs_address example_logs_task = ''10.0.0.1:20160''"
  "req example_logs_task = ''req''"
  "id' example_logs_task = ''t1''"
  "taskGroupID example_logs_task = ''g1''"
  "err example_logs_task = None"
  "cancel' example_logs_task = False"
  "zw' example_logs_task = None"
  "logs_logFilename example_logs_task = ''tikv.log''"
  "logs_dir_of (example_env f rs) example_logs_task = ''/tmp/dashboard-logs/g1''"
  "logs_savedPath_of (example_env f rs) example_logs_task = ''/tmp/dashboard-logs/g1/10.0.0.1-20160.zip''"
  by (simp_all add: logs_address_def logs_logFilename_def logs_zipFilename_def logs_dir_of_def
      logs_savedPath_of_def example_paths example_logs_task_def example_env_def logs_NewTask_def
      ReqInfo.extend_def)

lemma recv_loop_batches:
  assumes "io_ok env" and "r = RecvEOF \<or> r = RecvError e" and "n \<le> length (trace (world st))"
  shows "recv_loop env (map RecvMessages bs @ r # rest) st =
           Return (exit_state (recv_loop env (map RecvMessages bs @ r # rest) st)) \<and>
         task (exit_state (recv_loop env (map RecvMessages bs @ r # rest) st)) =
           (if r = RecvEOF then task st else (task st)\<lparr>Error := e\<rparr>) \<and>
         length (filter is_recv
                   (drop n (trace (world (exit_state
                      (recv_loop env (map RecvMessages bs @ r # rest) st)))))) =
           length (filter is_recv (drop n (trace (world st)))) + Suc (length bs)"
  using assms(3)
proof (induction bs arbitrary: st)
  case Nil
  then show ?case using assms(2) by (auto simp add: exit_state_def Let_def)
next
  case (Cons b bs)
  let ?st0 = "st\<lparr>world := called (StreamRecv (nbatch st)) (world st)\<rparr>"
  let ?wm = "write_messages env b ?st0"
  define st2 where "st2 = (fst ?wm)\<lparr>world := called (ZwFlush (nbatch st)) (world (fst ?wm)),
                             nbatch := Suc (nbatch st)\<rparr>"
  note ok = write_messages_io_ok[OF assms(1), of b ?st0]
  have fl: "fails env (ZwFlush (nbatch st)) = None" using assms(1) by (simp add: io_ok_def)
  have step: "recv_loop env (map RecvMessages (b # bs) @ r # rest) st =
                recv_loop env (map RecvMessages bs @ r # rest) st2"
    using ok fl by (simp add: Let_def case_prod_beta st2_def)
  from write_messages_trace[of env b ?st0] obtain cs where
    cs: "trace (world (fst ?wm)) = trace (world st) @ StreamRecv (nbatch st) # cs"
    "filter is_recv cs = []" by auto
  have t2: "task st2 = task st" using write_messages_task_next[of env b ?st0] ok
    by (simp add: st2_def)
  have n2: "n \<le> length (trace (world st2))" using Cons.prems cs by (simp add: st2_def)
  have f2: "length (filter is_recv (drop n (trace (world st2)))) =
              Suc (length (filter is_recv (drop n (trace (world st)))))"
    using Cons.prems cs by (simp add: st2_def)
  from Cons.IH[OF n2] show ?case unfolding step by (simp add: t2 f2)
qed

lemma setup_calls_no_recv [simp]: "filter is_recv (setup_calls env t) = []"
  by (simp add: setup_calls_def is_recv_def)

text \<open>C6: in logsearch, once the stream is open and the sink is created, and while
  writes and flushes succeed, \<open>io.EOF\<close> from \<open>Recv\<close> makes \<open>run\<close> return with the
  error field as it was (empty), so that \<open>close\<close> sets \<open>StateFinished\<close>; any other
  error of \<open>Recv\<close>, whose text is not empty, is stored in the error field and \<open>close\<close>
  sets \<open>StateCanceled\<close>. In both cases the run dials once, opens the stream once, and
  calls \<open>Recv\<close> once per response and once more for the final result: nothing is
  retried.\<close>

theorem C6_end_of_stream_and_errors:
  assumes "connect_ok env t" and "sink_ok env t" and "io_ok env" and "Error t = []"
    and "stream env = map RecvMessages bs @ r # rest"
    and "r = RecvEOF \<or> r = RecvError e" and "e \<noteq> []"
  shows "has_returned (run env t w) \<and>
         (r = RecvEOF \<longrightarrow>
            Error (task_of (run env t w)) = [] \<and> State (task_of (run env t w)) = StateFinished) \<and>
         (r = RecvError e \<longrightarrow>
            Error (task_of (run env t w)) = e \<and> State (task_of (run env t w)) = StateCanceled) \<and>
         filter is_dial (run_calls env t w) = [GrpcDial (address (Component t))] \<and>
         filter is_open (run_calls env t w) = [SearchLog (Request t)] \<and>
         length (filter is_recv (run_calls env t w)) = Suc (length bs)"
proof -
  let ?st = "loop_start env t w"
  note rb = recv_loop_batches[OF assms(3) assms(6) le_refl, where st = "?st" and bs = bs
      and rest = rest]
  define x where "x = exit_state (recv_loop env (stream env) ?st)"
  have ret: "recv_loop env (stream env) ?st = Return x"
    and tk: "task x = (if r = RecvEOF then running_task env t else (running_task env t)\<lparr>Error := e\<rparr>)"
    and cnt: "length (filter is_recv (loop_calls env (stream env) ?st)) = Suc (length bs)"
    using rb unfolding assms(5) loop_calls_def x_def by simp_all
  have run: "run env t w = returns env [ZwClose (zw x), FClose (zw x), ConnClose] (task x) (world x)"
    using assms(1,2) by (simp add: run_reaches_loop run_receive_def ret)
  have s1: "has_returned (run env t w)" unfolding run by simp
  have s2: "r = RecvEOF \<longrightarrow>
      Error (task_of (run env t w)) = [] \<and> State (task_of (run env t w)) = StateFinished"
    unfolding run using tk assms(4) by (simp add: close_task)
  have s3: "r = RecvError e \<longrightarrow>
      Error (task_of (run env t w)) = e \<and> State (task_of (run env t w)) = StateCanceled"
    unfolding run using tk assms(7) by (auto simp add: close_task)
  have q: "filter is_dial (tail_calls env (stream env) ?st) = []"
    "filter is_open (tail_calls env (stream env) ?st) = []"
    "filter is_recv (tail_calls env (stream env) ?st) = []"
    using quiet_tail_calls[of env "stream env" ?st] by (simp_all add: quiet_def)
  have rc: "run_calls env t w =
      setup_calls env t @
      [DbDeleteTask (TaskModel.truncate (running_task env t)),
       DbCreateTask (TaskModel.truncate (running_task env t))] @
      loop_calls env (stream env) ?st @ tail_calls env (stream env) ?st"
    using assms(1,2) by (simp add: run_calls_def run_calls_loop)
  have s4: "filter is_dial (run_calls env t w) = [GrpcDial (address (Component t))]"
    unfolding rc using q by (simp add: setup_calls_shape(4) is_dial_def)
  have s5: "filter is_open (run_calls env t w) = [SearchLog (Request t)]"
    unfolding rc using q assms(1) by (simp add: setup_calls_shape(5) is_open_def)
  have s6: "length (filter is_recv (run_calls env t w)) = Suc (length bs)"
    unfolding rc using q cnt by (simp add: is_recv_def)
  show ?thesis using s1 s2 s3 s4 s5 s6 by blast
qed

theorem C6_witness:
  "has_returned (run (example_env no_failure example_stream) example_task empty_world) \<and>
   Error (task_of (run (example_env no_failure example_stream) example_task empty_world)) = [] \<and>
   State (task_of (run (example_env no_failure example_stream) example_task empty_world)) =
     StateFinished \<and>
   length (filter is_recv
     (run_calls (example_env no_failure example_stream) example_task empty_world)) = 2 \<and>
   has_returned
     (run (example_env no_failure [RecvError ''rpc error: code = Unavailable desc = transport is closing''])
        example_task empty_world) \<and>
   Error (task_of
     (run (example_env no_failure [RecvError ''rpc error: code = Unavailable desc = transport is closing''])
        example_task empty_world)) =
     ''rpc error: code = Unavailable desc = transport is closing'' \<and>
   State (task_of
     (run (example_env no_failure [RecvError ''rpc error: code = Unavailable desc = transport is closing''])
        example_task empty_world)) = StateCanceled"
proof -
  let ?e = "''rpc error: code = Unavailable desc = transport is closing''"
  have h4: "Error example_task = []" by simp
  have a5: "stream (example_env no_failure example_stream) =
              map RecvMessages [[example_msg]] @ RecvEOF # []"
    by (simp add: example_stream_def)
  have a6: "RecvEOF = RecvEOF \<or> RecvEOF = RecvError ?e" by simp
  have b5: "stream (example_env no_failure [RecvError ?e]) = map RecvMessages [] @ RecvError ?e # []"
    by simp
  have b6: "RecvError ?e = RecvEOF \<or> RecvError ?e = RecvError ?e" by simp
  have ne: "?e \<noteq> []" by simp
  show ?thesis
    using C6_end_of_stream_and_errors[OF example_ok(1) example_ok(2) example_ok(3) h4 a5 a6 ne,
        of empty_world]
      C6_end_of_stream_and_errors[OF example_ok(1) example_ok(2) example_ok(3) h4 b5 b6 ne,
        of empty_world]
    by simp
qed

lemma long_kind_values [simp]:
  "address (Component long_kind_task) = ''10.0.0.1:20160''"
  "Request long_kind_task = ''req''"
  "TaskID long_kind_task = ''t1''"
  "Error long_kind_task = []"
  "SavedPath long_kind_task = []"
  "dir_of (example_env f rs) long_kind_task = ''/tmp/dashboard-logs/g1''"
  "savedPath_of (example_env f rs) long_kind_task = example_path"
  "length (logFilename (Component long_kind_task)) = 65540"
proof -
  have "length long_kind \<noteq> length ''tidb''" by (simp add: long_kind_def)
  then have "long_kind \<noteq> ''tidb''" by metis
  then show "address (Component long_kind_task) = ''10.0.0.1:20160''"
    by (simp add: address_def long_kind_task_def NewTask_def)
qed (simp_all add: logFilename_def zipFilename_def dir_of_def savedPath_of_def example_paths
      long_kind_task_def long_kind_def example_env_def example_path_def NewTask_def)

text \<open>C3, at the failing input: a component kind of 65536 bytes, so that \<open>zw.Create\<close>
  refuses the entry name after \<open>os.Create\<close> has created the archive file. The task ends
  \<open>StateCanceled\<close> with an empty \<open>SavedPath\<close>, so \<open>clean\<close> removes nothing and the file
  stays on the filesystem.\<close>

theorem C3_zip_entry_failure_keeps_file:
  "fails (example_env name_too_long [])
     (ZwCreate example_path (logFilename (Component long_kind_task))) =
     Some ''zip: FileHeader.Name too long'' \<and>
   has_returned (run (example_env name_too_long []) long_kind_task empty_world) \<and>
   State (task_of (run (example_env name_too_long []) long_kind_task empty_world)) = StateCanceled \<and>
   Error (task_of (run (example_env name_too_long []) long_kind_task empty_world)) =
     ''zip: FileHeader.Name too long'' \<and>
   SavedPath (task_of (run (example_env name_too_long []) long_kind_task empty_world)) = [] \<and>
   fs empty_world example_path = None \<and>
   fs (world_of (run (example_env name_too_long []) long_kind_task empty_world)) example_path =
     Some (ZipFile [] True)"
proof -
  let ?E = "example_env name_too_long []"
  have c: "connect_ok ?E long_kind_task" by (simp add: connect_ok_def name_too_long_def)
  have m: "fails ?E (OsMkdirAll (dir_of ?E long_kind_task)) = None"
    and f: "fails ?E (OsCreate (savedPath_of ?E long_kind_task)) = None"
    and z: "fails ?E (ZwCreate (savedPath_of ?E long_kind_task) (logFilename (Component long_kind_task)))
              = Some ''zip: FileHeader.Name too long''"
    and zc: "fails ?E (ZwClose example_path) = None"
    by (simp_all add: name_too_long_def)
  show ?thesis
    using z zc m f
    by (simp add: run_zip_fails[OF c m f z] close_task close_world after_zip_def after_create_def
        finish_zip_def empty_world_def)
qed

lemma run_one_message:
  assumes "connect_ok env t" and "sink_ok env t" and "io_ok env"
    and "stream env = [RecvMessages [m], RecvEOF]"
  shows "run env t w =
     returns env [ZwClose (savedPath_of env t), FClose (savedPath_of env t), ConnClose]
       (running_task env t)
       (called (StreamRecv 1) (called (ZwFlush 0)
          (dbClient_newPreview env 0 (TaskID t) m
             (fst (writer_Write env 0 (savedPath_of env t) (toLine env m)
                (called (StreamRecv 0) (world (loop_start env t w))))))))"
proof -
  have w0: "fails env (WriterWrite 0 (toLine env m)) = None" and f0: "fails env (ZwFlush 0) = None"
    using assms(3) by (simp_all add: io_ok_def)
  have "recv_loop env [RecvMessages [m], RecvEOF] (loop_start env t w) =
      Return ((loop_start env t w)
        \<lparr>world := called (StreamRecv 1) (called (ZwFlush 0)
            (dbClient_newPreview env 0 (TaskID t) m
               (fst (writer_Write env 0 (savedPath_of env t) (toLine env m)
                  (called (StreamRecv 0) (world (loop_start env t w))))))),
         nwritten := 1, previewLogLinesCount := 1, nbatch := 1\<rparr>)"
    using w0 f0
    by (simp add: Let_def case_prod_beta PreviewLogLinesLimit_def)
  then show ?thesis
    using assms(1,2,4) by (simp add: run_reaches_loop run_receive_def)
qed

text \<open>C7, at the failing input: the store refuses the preview row of the first message.
  \<open>run\<close> of logsearch drops what \<open>newPreview\<close> returns: the task goes on, ends
  \<open>StateFinished\<close> with an empty error, the line is in the archive, and the preview
  table has no row for the task.\<close>

theorem C7_preview_failure_is_dropped:
  "fails (example_env preview_insert_fails example_stream) (DbNewPreview 0 ''t1'' example_msg) =
     Some ''database is locked'' \<and>
   has_returned (run (example_env preview_insert_fails example_stream) example_task empty_world) \<and>
   Error (task_of (run (example_env preview_insert_fails example_stream) example_task empty_world))
     = [] \<and>
   State (task_of (run (example_env preview_insert_fails example_stream) example_task empty_world))
     = StateFinished \<and>
   preview_msgs (new_calls empty_world
     (world_of (run (example_env preview_insert_fails example_stream) example_task empty_world)))
     = [example_msg] \<and>
   preview_rows ''t1''
     (world_of (run (example_env preview_insert_fails example_stream) example_task empty_world))
     = [] \<and>
   fs (world_of (run (example_env preview_insert_fails example_stream) example_task empty_world))
     example_path =
     Some (ZipFile [(''tikv.log'', [''[2020/03/01 12:00:00.123 +00:00] [Info] ready'' @ [CHR 10]])]
             True)"
proof -
  let ?E = "example_env preview_insert_fails example_stream"
  have c: "connect_ok ?E example_task" and s: "sink_ok ?E example_task" and i: "io_ok ?E"
    by (simp_all add: connect_ok_def sink_ok_def io_ok_def preview_insert_fails_def)
  have st: "stream ?E = [RecvMessages [example_msg], RecvEOF]" by (simp add: example_stream_def)
  have d: "fails ?E (DbNewPreview 0 ''t1'' example_msg) = Some ''database is locked''"
    and o: "fails ?E (WriterWrite 0 (toLine ?E example_msg)) = None"
      "fails ?E (ZwClose example_path) = None"
    by (simp_all add: preview_insert_fails_def)
  note r = run_one_message[OF c s i st, of empty_world]
  have p: "preview_msgs (new_calls empty_world (world_of (run ?E example_task empty_world))) =
      [example_msg]"
    unfolding r
    by (simp add: close_trace new_calls_def empty_world_def preview_of_def close_calls_def
        after_zip_def after_create_def after_mkdir_def after_connect_def)
  have fz: "fs (after_zip ?E example_task w) example_path = Some (ZipFile [(''tikv.log'', [])] False)"
    for w using after_zip_fs[OF s, of w] by simp
  show ?thesis
    unfolding r using d o p[unfolded r]
    by (simp add: close_task close_world preview_rows_def fz add_line_def
        finish_zip_def empty_world_def example_line)
qed

lemma has_panicked_panics [simp]: "has_panicked (logs_panics env ds t w)"
  by (simp add: has_panicked_def logs_panics_def)

text \<open>C9, at the failing input: package logs, one response with one message, every call
  succeeding. \<open>CreateFile\<close> leaves the field \<open>t.zw\<close> nil, so the flush after the first
  batch dereferences a nil pointer: the goroutine panics after one write and no flush
  call is made.\<close>

theorem C9_logs_flush_panics:
  "zw' example_logs_task = None \<and>
   has_panicked (logs_run (example_env no_failure example_stream) example_logs_task empty_world) \<and>
   zw' (logs_task_of (logs_run (example_env no_failure example_stream) example_logs_task
     empty_world)) = None \<and>
   filter is_flush (logs_run_calls (example_env no_failure example_stream) example_logs_task
     empty_world) = [] \<and>
   written_lines (logs_run_calls (example_env no_failure example_stream) example_logs_task
     empty_world) = [''[2020/03/01 12:00:00.123 +00:00] [Info] ready'' @ [CHR 10]]"
proof -
  let ?E = "example_env no_failure example_stream"
  let ?p = "''/tmp/dashboard-logs/g1/10.0.0.1-20160.zip''"
  have c: "logs_connect_ok ?E example_logs_task" and s: "logs_sink_ok ?E example_logs_task"
    and b: "logs_start_ok ?E example_logs_task"
    by (simp_all add: logs_connect_ok_def logs_sink_ok_def logs_start_ok_def no_failure_def)
  let ?st = "logs_loop_start ?E example_logs_task empty_world"
  let ?w1 = "fst (db_insertLineToPreview ?E 0 ''t1'' example_msg
                (fst (writer_Write ?E 0 ?p (toLine ?E example_msg)
                   (called (StreamRecv 0) (lworld ?st)))))"
  have l: "logs_recv_loop ?E example_stream ?st =
             LPanic (?st\<lparr>lworld := ?w1, lwritten := 1, lcount := 1\<rparr>)"
    by (simp add: example_stream_def Let_def case_prod_beta logs_PreviewLogLinesLimit_def
        logs_running_task_def no_failure_def)
  have r: "logs_run ?E example_logs_task empty_world =
             logs_panics ?E [ZwClose ?p, FClose ?p, ConnClose] (logs_running_task ?E example_logs_task) ?w1"
    using c s b l by (simp add: logs_run_reaches_loop logs_run_receive_def)
  show ?thesis
    unfolding logs_run_calls_def r
    by (simp add: logs_running_task_def new_calls_def
        empty_world_def is_flush_def written_lines_def line_of_def logs_close_calls_def
        logs_after_start_def example_line)
qed

lemma line_breaks_append [simp]: "line_breaks (a @ b) = line_breaks a + line_breaks b"
  by (simp add: line_breaks_def)

lemma line_breaks_zero: "(line_breaks s = 0) = (CHR 10 \<notin> set s)"
  by (simp add: line_breaks_def count_list_0_iff)

lemma sint_millis:
  assumes "- 9223372036854 \<le> sint (x :: 64 word)" and "sint x \<le> 9223372036854"
  shows "sint (x * 1000000) = sint x * 1000000"
proof -
  have "sint (x * 1000000) = signed_take_bit 63 (sint x * sint (1000000 :: 64 word))"
    by (simp add: sint_word_ariths)
  also have "sint (1000000 :: 64 word) = 1000000" by simp
  also have "signed_take_bit 63 (sint x * 1000000) = sint x * 1000000"
    using assms by (simp add: signed_take_bit_int_eq_self)
  finally show ?thesis .
qed

text \<open>C8, as amended: for every message \<open>toLine\<close> returns the text
  \<open>[<timestamp>] [<level name>] <message>\<close> followed by one line feed, where the timestamp
  is the fixed-layout rendering of the message's millisecond time multiplied by 10^6 in
  64-bit arithmetic (the exact product when the time is within 9223372036854 ms of the
  epoch), and the level name is the entry of the level-name table (empty when the table
  has none, never the number). The text is exactly one line if and only if neither the
  timestamp, nor the level name, nor the message contains a line feed.\<close>

theorem C8_toLine_format:
  "toLine env msg =
     ''['' @ time_Format env (sint (Time msg * 1000000)) @ ''] ['' @ level_name env msg @
     ''] '' @ Message msg @ [CHR 10] \<and>
   (- 9223372036854 \<le> sint (Time msg) \<and> sint (Time msg) \<le> 9223372036854 \<longrightarrow>
      sint (Time msg * 1000000) = sint (Time msg) * 1000000) \<and>
   (line_breaks (toLine env msg) = 1) =
     (CHR 10 \<notin> set (time_Format env (sint (Time msg * 1000000))) \<and>
      CHR 10 \<notin> set (level_name env msg) \<and> CHR 10 \<notin> set (Message msg))"
proof -
  have f: "toLine env msg =
     ''['' @ time_Format env (sint (Time msg * 1000000)) @ ''] ['' @ level_name env msg @
     ''] '' @ Message msg @ [CHR 10]"
    by (simp add: toLine_def level_name_def Let_def)
  have b: "line_breaks (toLine env msg) =
      line_breaks (time_Format env (sint (Time msg * 1000000))) +
      line_breaks (level_name env msg) + line_breaks (Message msg) + 1"
    unfolding f by (simp add: line_breaks_def)
  have c: "(line_breaks (toLine env msg) = 1) =
     (CHR 10 \<notin> set (time_Format env (sint (Time msg * 1000000))) \<and>
      CHR 10 \<notin> set (level_name env msg) \<and> CHR 10 \<notin> set (Message msg))"
    unfolding b using line_breaks_zero by auto
  show ?thesis using f c sint_millis[of "Time msg"] by blast
qed

theorem C8_counterexample:
  "toLine (example_env no_failure []) two_line_msg =
     ''[1970/01/01 00:00:00.000 +00:00] [Info] first'' @ [CHR 10] @ ''second'' @ [CHR 10] \<and>
   line_breaks (toLine (example_env no_failure []) two_line_msg) = 2"
proof -
  have u: "utc_Format 0 = ''1970/01/01 00:00:00.000 +00:00''" by code_simp
  have t: "toLine (example_env no_failure []) two_line_msg =
     ''[1970/01/01 00:00:00.000 +00:00] [Info] first'' @ [CHR 10] @ ''second'' @ [CHR 10]"
    unfolding toLine_def example_env_def two_line_msg_def
    by (simp add: u kv_LogLevel_name_def)
  show ?thesis unfolding t by (simp add: line_breaks_def)
qed

theorem C8_witness:
  "- 9223372036854 \<le> sint (Time example_msg) \<and> sint (Time example_msg) \<le> 9223372036854 \<and>
   sint (Time example_msg * 1000000) = 1583064000123000000 \<and>
   toLine (example_env no_failure []) example_msg =
     ''[2020/03/01 12:00:00.123 +00:00] [Info] ready'' @ [CHR 10] \<and>
   line_breaks (toLine (example_env no_failure []) example_msg) = 1"
proof -
  note c8 = C8_toLine_format[of "example_env no_failure []" example_msg]
  have u: "utc_Format 1583064000123000000 = ''2020/03/01 12:00:00.123 +00:00''" by code_simp
  have s: "sint (Time example_msg) = 1583064000123" by (simp add: example_msg_def)
  have h: "- 9223372036854 \<le> sint (Time example_msg) \<and> sint (Time example_msg) \<le> 9223372036854"
    unfolding s by simp
  have p: "sint (Time example_msg * 1000000) = 1583064000123000000"
    using c8 h unfolding s by simp
  have e: "time_Format (example_env no_failure []) = utc_Format"
    "level_name (example_env no_failure []) example_msg = ''Info''"
    "Message example_msg = ''ready''"
    by (simp_all add: example_env_def level_name_def example_msg_def kv_LogLevel_name_def)
  have t: "toLine (example_env no_failure []) example_msg =
     ''[2020/03/01 12:00:00.123 +00:00] [Info] ready'' @ [CHR 10]"
    using c8 unfolding p e u by simp
  have l: "line_breaks (toLine (example_env no_failure []) example_msg) = 1"
    unfolding t by (simp add: line_breaks_def)
  show ?thesis using h p t l by blast
qed

lemma is_sink_or_close_simps [simp]:
  "is_sink_or_close ConnClose"
  "is_sink_or_close (OsMkdirAll d)"
  "is_sink_or_close (OsCreate p)"
  "is_sink_or_close (ZwCreate p n)"
  "\<not> is_sink_or_close (GrpcDial a)"
  "\<not> is_sink_or_close (SearchLog r)"
  "\<not> is_sink_or_close (ZwClose p)"
  "\<not> is_sink_or_close (FClose p)"
  "\<not> is_sink_or_close (OsRemoveAll p)"
  "\<not> is_sink_or_close (DbCleanPreview i)"
  "\<not> is_sink_or_close (DbUpdateTask m)"
  "\<not> is_sink_or_close (DbCancelTask i)"
  "\<not> is_sink_or_close (DbFinishTask i)"
  by (simp_all add: is_sink_or_close_def is_sink_call_def)

lemma close_calls_no_sink [simp]: "filter is_sink_or_close (close_calls env t) = []"
  by (simp add: close_calls_def)

lemma logs_close_calls_no_sink [simp]: "filter is_sink_or_close (logs_close_calls t) = []"
  by (simp add: logs_close_calls_def split: option.split)

lemma run_sink_failed_closes:
  assumes "connect_ok env t" and "\<not> sink_ok env t"
  shows "has_returned (run env t w) \<and>
         filter is_sink_or_close (run_calls env t w) =
           filter is_sink_call (setup_calls env t) @ [ConnClose]"
proof -
  from assms(1) have d: "fails env (GrpcDial (address (Component t))) = None"
    and s: "fails env (SearchLog (Request t)) = None" by (simp_all add: connect_ok_def)
  show ?thesis
  proof (cases "fails env (OsMkdirAll (dir_of env t))")
    case (Some e)
    then show ?thesis using d s
      by (simp add: run_calls_def run_mkdir_fails[OF assms(1)] close_trace new_calls_def
          setup_calls_def is_sink_call_def)
  next
    case m: None
    show ?thesis
    proof (cases "fails env (OsCreate (savedPath_of env t))")
      case (Some e)
      then show ?thesis using d s m
        by (simp add: run_calls_def run_create_fails[OF assms(1)] close_trace new_calls_def
            setup_calls_def is_sink_call_def)
    next
      case f: None
      from assms m f obtain e where
        z: "fails env (ZwCreate (savedPath_of env t) (logFilename (Component t))) = Some e"
        by (auto simp add: sink_ok_def)
      then show ?thesis using d s m f
        by (simp add: run_calls_def run_zip_fails[OF assms(1)] close_trace new_calls_def
            setup_calls_def is_sink_call_def)
    qed
  qed
qed

lemma logs_run_sink_failed_closes:
  assumes "logs_connect_ok env t" and "\<not> logs_sink_ok env t"
  shows "filter is_sink_or_close (logs_run_calls env t w) =
           filter is_sink_call (logs_setup_calls env t) @ [ConnClose]"
proof -
  from assms(1) have d: "fails env (GrpcDial (logs_address t)) = None"
    and s: "fails env (SearchLog (req t)) = None" by (simp_all add: logs_connect_ok_def)
  show ?thesis
  proof (cases "fails env (OsMkdirAll (logs_dir_of env t))")
    case (Some e)
    then show ?thesis using d s
      by (simp add: logs_run_calls_def logs_run_mkdir_fails[OF assms(1)] new_calls_def
          logs_setup_calls_def is_sink_call_def)
  next
    case m: None
    show ?thesis
    proof (cases "fails env (OsCreate (logs_savedPath_of env t))")
      case (Some e)
      then show ?thesis using d s m
        by (simp add: logs_run_calls_def logs_run_create_fails[OF assms(1)] new_calls_def
            logs_setup_calls_def is_sink_call_def)
    next
      case f: None
      from assms m f obtain e where
        z: "fails env (ZwCreate (logs_savedPath_of env t) (logs_logFilename t)) = Some e"
        by (auto simp add: logs_sink_ok_def)
      then show ?thesis using d s m f
        by (simp add: logs_run_calls_def logs_run_zip_fails[OF assms(1)] new_calls_def
            logs_setup_calls_def is_sink_call_def)
    qed
  qed
qed

lemma setup_calls_sink_nonempty:
  "connect_ok env t \<Longrightarrow> filter is_sink_call (setup_calls env t) \<noteq> []"
  "logs_connect_ok env u \<Longrightarrow> filter is_sink_call (logs_setup_calls env u) \<noteq> []"
  by (simp_all add: setup_calls_def logs_setup_calls_def connect_ok_def logs_connect_ok_def
      is_sink_call_def)

text \<open>C10, as amended: when the stream opens and the sink is created, and the first
  \<open>Recv\<close> returns \<open>io.EOF\<close>, the task returns with state \<open>StateFinished\<close> and an empty
  error, and no preview row is appended; the file at the saved path holds exactly one
  entry, named after the component kind, with no line, and it is a complete archive if
  and only if the deferred \<open>zw.Close()\<close>, whose result the code drops, succeeds.\<close>

theorem C10_eof_before_first_batch:
  assumes "connect_ok env t" and "sink_ok env t" and "Error t = []"
    and "stream env = RecvEOF # rest"
  shows "has_returned (run env t w) \<and>
         State (task_of (run env t w)) = StateFinished \<and>
         Error (task_of (run env t w)) = [] \<and>
         SavedPath (task_of (run env t w)) = savedPath_of env t \<and>
         fs (world_of (run env t w)) (savedPath_of env t) =
           Some (ZipFile [(logFilename (Component t), [])]
                   (fails env (ZwClose (savedPath_of env t)) = None)) \<and>
         archive_entries (world_of (run env t w)) (savedPath_of env t) =
           (if fails env (ZwClose (savedPath_of env t)) = None
            then Some [(logFilename (Component t), [])] else None) \<and>
         preview_msgs (new_calls w (world_of (run env t w))) = [] \<and>
         store_previews (world_of (run env t w)) = store_previews w"
proof -
  have r: "run env t w =
      returns env [ZwClose (savedPath_of env t), FClose (savedPath_of env t), ConnClose]
        (running_task env t)
        (called (StreamRecv 0) (world (loop_start env t w)))"
    using assms by (simp add: run_reaches_loop run_receive_def Let_def)
  show ?thesis
    unfolding r using assms(2,3)
    by (simp add: close_task close_world new_calls_def after_zip_fs finish_zip_def
        preview_of_def archive_entries_def)
qed

theorem C10_counterexample:
  "has_returned (run (example_env zip_close_fails [RecvEOF]) example_task empty_world) \<and>
   State (task_of (run (example_env zip_close_fails [RecvEOF]) example_task empty_world)) =
     StateFinished \<and>
   Error (task_of (run (example_env zip_close_fails [RecvEOF]) example_task empty_world)) = [] \<and>
   SavedPath (task_of (run (example_env zip_close_fails [RecvEOF]) example_task empty_world)) =
     example_path \<and>
   fs (world_of (run (example_env zip_close_fails [RecvEOF]) example_task empty_world))
     example_path = Some (ZipFile [(''tikv.log'', [])] False) \<and>
   archive_entries (world_of (run (example_env zip_close_fails [RecvEOF]) example_task empty_world))
     example_path = None"
proof -
  let ?E = "example_env zip_close_fails [RecvEOF]"
  have c: "connect_ok ?E example_task" and s: "sink_ok ?E example_task"
    by (simp_all add: connect_ok_def sink_ok_def zip_close_fails_def)
  have r: "run ?E example_task empty_world =
      returns ?E [ZwClose example_path, FClose example_path, ConnClose]
        (running_task ?E example_task)
        (called (StreamRecv 0) (world (loop_start ?E example_task empty_world)))"
    using c s by (simp add: run_reaches_loop run_receive_def Let_def)
  have fz: "fs (after_zip ?E example_task w) example_path = Some (ZipFile [(''tikv.log'', [])] False)"
    for w using after_zip_fs[OF s, of w] by simp
  show ?thesis
    unfolding r
    by (simp add: close_task close_world fz finish_zip_def archive_entries_def
        zip_close_fails_def)
qed

theorem C10_witness:
  "connect_ok (example_env no_failure [RecvEOF]) example_task \<and>
   sink_ok (example_env no_failure [RecvEOF]) example_task \<and>
   has_returned (run (example_env no_failure [RecvEOF]) example_task empty_world) \<and>
   State (task_of (run (example_env no_failure [RecvEOF]) example_task empty_world)) = StateFinished \<and>
   Error (task_of (run (example_env no_failure [RecvEOF]) example_task empty_world)) = [] \<and>
   fs (world_of (run (example_env no_failure [RecvEOF]) example_task empty_world)) example_path =
     Some (ZipFile [(''tikv.log'', [])] True) \<and>
   archive_entries (world_of (run (example_env no_failure [RecvEOF]) example_task empty_world))
     example_path = Some [(''tikv.log'', [])] \<and>
   store_previews (world_of (run (example_env no_failure [RecvEOF]) example_task empty_world)) = []"
proof -
  have h1: "connect_ok (example_env no_failure [RecvEOF]) example_task"
    by (simp add: connect_ok_def no_failure_def)
  have h2: "sink_ok (example_env no_failure [RecvEOF]) example_task"
    by (simp add: sink_ok_def no_failure_def)
  have h3: "Error example_task = []" by simp
  have h4: "stream (example_env no_failure [RecvEOF]) = RecvEOF # []" by simp
  show ?thesis
    using h1 h2 C10_eof_before_first_batch[OF h1 h2 h3 h4, of empty_world]
    by (simp add: no_failure_def empty_world_def)
qed

text \<open>C2, as amended: in both packages the dial is the first external call of every
  run and the stream is opened next; the directory of the sink is created third, only
  when both succeeded; when the dial or the opening of the stream fails, no call that
  builds the sink is made. When a call that builds the sink fails, the connection is
  open, and the deferred \<open>conn.Close()\<close> is called once, after the failed call.\<close>

theorem C2_dial_before_sink:
  "take 1 (run_calls env t w) = [GrpcDial (address (Component t))] \<and>
   (\<not> connect_ok env t \<longrightarrow> filter is_sink_call (run_calls env t w) = []) \<and>
   (connect_ok env t \<longrightarrow>
      take 3 (run_calls env t w) =
        [GrpcDial (address (Component t)), SearchLog (Request t), OsMkdirAll (dir_of env t)]) \<and>
   (connect_ok env t \<and> \<not> sink_ok env t \<longrightarrow>
      has_returned (run env t w) \<and>
      filter is_sink_or_close (run_calls env t w) =
        filter is_sink_call (run_calls env t w) @ [ConnClose] \<and>
      filter is_sink_call (run_calls env t w) \<noteq> []) \<and>
   take 1 (logs_run_calls env u w) = [GrpcDial (logs_address u)] \<and>
   (\<not> logs_connect_ok env u \<longrightarrow> filter is_sink_call (logs_run_calls env u w) = []) \<and>
   (logs_connect_ok env u \<longrightarrow>
      take 3 (logs_run_calls env u w) =
        [GrpcDial (logs_address u), SearchLog (req u), OsMkdirAll (logs_dir_of env u)]) \<and>
   (logs_connect_ok env u \<and> \<not> logs_sink_ok env u \<longrightarrow>
      filter is_sink_or_close (logs_run_calls env u w) =
        filter is_sink_call (logs_run_calls env u w) @ [ConnClose] \<and>
      filter is_sink_call (logs_run_calls env u w) \<noteq> [])"
proof -
  from run_calls_setup[of env t w] obtain cs where
    a: "run_calls env t w = setup_calls env t @ cs" "filter is_sink_call cs = []" by blast
  from logs_run_calls_setup[of env u w] obtain ds where
    b: "logs_run_calls env u w = logs_setup_calls env u @ ds" "filter is_sink_call ds = []"
    by blast
  have sa: "filter is_sink_call (run_calls env t w) = filter is_sink_call (setup_calls env t)"
    unfolding a(1) using a(2) by simp
  have sb: "filter is_sink_call (logs_run_calls env u w) =
      filter is_sink_call (logs_setup_calls env u)"
    unfolding b(1) using b(2) by simp
  have l1: "1 \<le> length (setup_calls env t)" "1 \<le> length (logs_setup_calls env u)"
    by (simp_all add: setup_calls_def logs_setup_calls_def)
  have l3: "connect_ok env t \<Longrightarrow> 3 \<le> length (setup_calls env t)"
    "logs_connect_ok env u \<Longrightarrow> 3 \<le> length (logs_setup_calls env u)"
    by (simp_all add: setup_calls_def logs_setup_calls_def connect_ok_def logs_connect_ok_def)
  have t1: "take 1 (run_calls env t w) = [GrpcDial (address (Component t))]"
    unfolding a(1) using l1(1) setup_calls_shape(1)[of env t] by simp
  have t2: "\<not> connect_ok env t \<longrightarrow> filter is_sink_call (run_calls env t w) = []"
    unfolding a(1) using a(2) setup_calls_shape(2)[of env t] by simp
  have t3: "connect_ok env t \<longrightarrow>
      take 3 (run_calls env t w) =
        [GrpcDial (address (Component t)), SearchLog (Request t), OsMkdirAll (dir_of env t)]"
    unfolding a(1) using l3(1) setup_calls_shape(3)[of env t] by simp
  have t4: "connect_ok env t \<and> \<not> sink_ok env t \<longrightarrow>
      has_returned (run env t w) \<and>
      filter is_sink_or_close (run_calls env t w) =
        filter is_sink_call (run_calls env t w) @ [ConnClose] \<and>
      filter is_sink_call (run_calls env t w) \<noteq> []"
    using run_sink_failed_closes[of env t w] setup_calls_sink_nonempty(1)[of env t] sa by simp
  have u1: "take 1 (logs_run_calls env u w) = [GrpcDial (logs_address u)]"
    unfolding b(1) using l1(2) logs_setup_calls_shape(1)[of env u] by simp
  have u2: "\<not> logs_connect_ok env u \<longrightarrow> filter is_sink_call (logs_run_calls env u w) = []"
    unfolding b(1) using b(2) logs_setup_calls_shape(2)[of env u] by simp
  have u3: "logs_connect_ok env u \<longrightarrow>
      take 3 (logs_run_calls env u w) =
        [GrpcDial (logs_address u), SearchLog (req u), OsMkdirAll (logs_dir_of env u)]"
    unfolding b(1) using l3(2) logs_setup_calls_shape(3)[of env u] by simp
  have u4: "logs_connect_ok env u \<and> \<not> logs_sink_ok env u \<longrightarrow>
      filter is_sink_or_close (logs_run_calls env u w) =
        filter is_sink_call (logs_run_calls env u w) @ [ConnClose] \<and>
      filter is_sink_call (logs_run_calls env u w) \<noteq> []"
    using logs_run_sink_failed_closes[of env u w] setup_calls_sink_nonempty(2)[of env u] sb by simp
  show ?thesis using t1 t2 t3 t4 u1 u2 u3 u4 by blast
qed

theorem C2_counterexample:
  "fails (example_env mkdir_denied []) (OsMkdirAll ''/tmp/dashboard-logs/g1'') =
     Some ''mkdir /tmp/dashboard-logs: permission denied'' \<and>
   take 4 (run_calls (example_env mkdir_denied []) example_task empty_world) =
     [GrpcDial ''10.0.0.1:20160'', SearchLog ''req'', OsMkdirAll ''/tmp/dashboard-logs/g1'',
      ConnClose] \<and>
   State (task_of (run (example_env mkdir_denied []) example_task empty_world)) = StateCanceled"
proof -
  let ?E = "example_env mkdir_denied []"
  have c: "connect_ok ?E example_task" by (simp add: connect_ok_def mkdir_denied_def)
  have m: "fails ?E (OsMkdirAll (dir_of ?E example_task)) =
             Some ''mkdir /tmp/dashboard-logs: permission denied''"
    by (simp add: mkdir_denied_def)
  show ?thesis
    using m
    by (simp add: run_calls_def run_mkdir_fails[OF c m] close_trace close_task new_calls_def
        empty_world_def)
qed

theorem C2_witness:
  "connect_ok (example_env mkdir_denied []) example_task \<and>
   \<not> sink_ok (example_env mkdir_denied []) example_task \<and>
   take 3 (run_calls (example_env mkdir_denied []) example_task empty_world) =
     [GrpcDial ''10.0.0.1:20160'', SearchLog ''req'', OsMkdirAll ''/tmp/dashboard-logs/g1''] \<and>
   filter is_sink_or_close (run_calls (example_env mkdir_denied []) example_task empty_world) =
     [OsMkdirAll ''/tmp/dashboard-logs/g1'', ConnClose] \<and>
   filter is_sink_or_close (run_calls (example_env create_denied []) example_task empty_world) =
     [OsMkdirAll ''/tmp/dashboard-logs/g1'', OsCreate example_path, ConnClose] \<and>
   \<not> connect_ok (example_env dial_refused []) example_task \<and>
   filter is_sink_call (run_calls (example_env dial_refused []) example_task empty_world) = [] \<and>
   logs_connect_ok (example_env mkdir_denied []) example_logs_task \<and>
   \<not> logs_sink_ok (example_env mkdir_denied []) example_logs_task \<and>
   take 3 (logs_run_calls (example_env mkdir_denied []) example_logs_task empty_world) =
     [GrpcDial ''10.0.0.1:20160'', SearchLog ''req'', OsMkdirAll ''/tmp/dashboard-logs/g1''] \<and>
   filter is_sink_or_close
     (logs_run_calls (example_env mkdir_denied []) example_logs_task empty_world) =
     [OsMkdirAll ''/tmp/dashboard-logs/g1'', ConnClose] \<and>
   filter is_sink_or_close
     (logs_run_calls (example_env create_denied []) example_logs_task empty_world) =
     [OsMkdirAll ''/tmp/dashboard-logs/g1'', OsCreate example_path, ConnClose] \<and>
   \<not> logs_connect_ok (example_env dial_refused []) example_logs_task \<and>
   filter is_sink_call (logs_run_calls (example_env dial_refused []) example_logs_task empty_world) = []"
proof -
  have c1: "connect_ok (example_env mkdir_denied []) example_task"
    "\<not> sink_ok (example_env mkdir_denied []) example_task"
    "connect_ok (example_env create_denied []) example_task"
    "\<not> sink_ok (example_env create_denied []) example_task"
    by (simp_all add: connect_ok_def sink_ok_def mkdir_denied_def create_denied_def)
  have c2: "\<not> connect_ok (example_env dial_refused []) example_task"
    by (simp add: connect_ok_def dial_refused_def)
  have c3: "logs_connect_ok (example_env mkdir_denied []) example_logs_task"
    "\<not> logs_sink_ok (example_env mkdir_denied []) example_logs_task"
    "logs_connect_ok (example_env create_denied []) example_logs_task"
    "\<not> logs_sink_ok (example_env create_denied []) example_logs_task"
    by (simp_all add: logs_connect_ok_def logs_sink_ok_def mkdir_denied_def create_denied_def)
  have c4: "\<not> logs_connect_ok (example_env dial_refused []) example_logs_task"
    by (simp add: logs_connect_ok_def dial_refused_def)
  have s0: "filter is_sink_call (setup_calls (example_env mkdir_denied []) example_task) =
      [OsMkdirAll ''/tmp/dashboard-logs/g1'']"
    "filter is_sink_call (setup_calls (example_env create_denied []) example_task) =
      [OsMkdirAll ''/tmp/dashboard-logs/g1'', OsCreate example_path]"
    "filter is_sink_call (logs_setup_calls (example_env mkdir_denied []) example_logs_task) =
      [OsMkdirAll ''/tmp/dashboard-logs/g1'']"
    "filter is_sink_call (logs_setup_calls (example_env create_denied []) example_logs_task) =
      [OsMkdirAll ''/tmp/dashboard-logs/g1'', OsCreate example_path]"
    by (simp_all add: setup_calls_def logs_setup_calls_def mkdir_denied_def create_denied_def
        is_sink_call_def example_path_def)
  have s1: "filter is_sink_call (run_calls (example_env mkdir_denied []) example_task empty_world) =
      [OsMkdirAll ''/tmp/dashboard-logs/g1'']"
    "filter is_sink_call (run_calls (example_env create_denied []) example_task empty_world) =
      [OsMkdirAll ''/tmp/dashboard-logs/g1'', OsCreate example_path]"
    "filter is_sink_call
       (logs_run_calls (example_env mkdir_denied []) example_logs_task empty_world) =
      [OsMkdirAll ''/tmp/dashboard-logs/g1'']"
    "filter is_sink_call
       (logs_run_calls (example_env create_denied []) example_logs_task empty_world) =
      [OsMkdirAll ''/tmp/dashboard-logs/g1'', OsCreate example_path]"
    using run_calls_setup[of "example_env mkdir_denied []" example_task empty_world]
      run_calls_setup[of "example_env create_denied []" example_task empty_world]
      logs_run_calls_setup[of "example_env mkdir_denied []" example_logs_task empty_world]
      logs_run_calls_setup[of "example_env create_denied []" example_logs_task empty_world]
      s0
    by auto
  show ?thesis
    using c1 c2 c3 c4
      C2_dial_before_sink[of "example_env mkdir_denied []" example_task empty_world example_logs_task]
      C2_dial_before_sink[of "example_env create_denied []" example_task empty_world example_logs_task]
      C2_dial_before_sink[of "example_env dial_refused []" example_task empty_world example_logs_task]
    unfolding s1 by simp
qed

lemma stored_msgs_simps [simp]:
  "stored_msgs env [] = []"
  "stored_msgs env (c # cs) = (if fails env c = None then preview_of c else []) @ stored_msgs env cs"
  "stored_msgs env (a @ b) = stored_msgs env a @ stored_msgs env b"
  by (simp_all add: stored_msgs_def)

lemma stored_msgs_le: "length (stored_msgs env cs) \<le> length (preview_msgs cs)"
  by (induction cs) simp_all

lemma stored_msgs_none: "preview_msgs cs = [] \<Longrightarrow> stored_msgs env cs = []"
  using stored_msgs_le[of env cs] by simp

lemma stored_msgs_all: "preview_ok env \<Longrightarrow> stored_msgs env cs = preview_msgs cs"
proof (induction cs)
  case Nil
  show ?case by simp
next
  case (Cons c cs)
  have "preview_of c = [] \<or> fails env c = None"
    using Cons.prems by (cases c) (simp_all add: preview_of_def preview_ok_def)
  then show ?case using Cons by auto
qed

lemma preview_rows_append:
  "store_previews w' = store_previews w @ map (Pair tid) ms \<Longrightarrow>
   preview_rows tid w' = preview_rows tid w @ ms"
  by (simp add: preview_rows_def comp_def)

lemma write_messages_store:
  "\<exists>cs. trace (world (fst (write_messages env msgs st))) = trace (world st) @ cs \<and>
        store_previews (world (fst (write_messages env msgs st))) =
          store_previews (world st) @ map (Pair (TaskID (task st))) (stored_msgs env cs)"
proof (induction msgs arbitrary: st)
  case Nil
  show ?case by simp
next
  case (Cons msg msgs)
  show ?case
  proof (cases "fails env (WriterWrite (nwritten st) (toLine env msg))")
    case (Some e)
    then show ?thesis by (simp add: Let_def case_prod_beta preview_of_def)
  next
    case None
    define st1 where "st1 = st\<lparr>world := fst (writer_Write env (nwritten st) (zw st) (toLine env msg) (world st)),
                              nwritten := Suc (nwritten st)\<rparr>"
    define st2 where "st2 = (if previewLogLinesCount st1 < PreviewLogLinesLimit
                      then st1\<lparr>world := dbClient_newPreview env (previewLogLinesCount st1)
                                          (TaskID (task st1)) msg (world st1),
                               previewLogLinesCount := Suc (previewLogLinesCount st1)\<rparr>
                      else st1)"
    have step: "write_messages env (msg # msgs) st = write_messages env msgs st2"
      using None by (simp add: Let_def case_prod_beta st1_def st2_def)
    have "\<exists>cs. trace (world st2) = trace (world st) @ cs \<and>
            store_previews (world st2) =
              store_previews (world st) @ map (Pair (TaskID (task st))) (stored_msgs env cs)"
      by (simp add: st2_def st1_def preview_of_def)
    then obtain cs where a: "trace (world st2) = trace (world st) @ cs"
      "store_previews (world st2) =
         store_previews (world st) @ map (Pair (TaskID (task st))) (stored_msgs env cs)" by blast
    have t2: "task st2 = task st" by (simp add: st2_def st1_def)
    from Cons.IH[of st2] obtain ds where b:
      "trace (world (fst (write_messages env msgs st2))) = trace (world st2) @ ds"
      "store_previews (world (fst (write_messages env msgs st2))) =
         store_previews (world st2) @ map (Pair (TaskID (task st2))) (stored_msgs env ds)" by blast
    show ?thesis unfolding step using a b t2 by simp
  qed
qed

lemma recv_loop_store:
  "\<exists>cs. trace (world (exit_state (recv_loop env rs st))) = trace (world st) @ cs \<and>
        store_previews (world (exit_state (recv_loop env rs st))) =
          store_previews (world st) @ map (Pair (TaskID (task st))) (stored_msgs env cs)"
proof (induction rs arbitrary: st)
  case Nil
  show ?case by (simp add: exit_state_def)
next
  case (Cons r rs)
  let ?st0 = "st\<lparr>world := called (StreamRecv (nbatch st)) (world st)\<rparr>"
  show ?case
  proof (cases r)
    case RecvEOF
    then show ?thesis by (simp add: exit_state_def Let_def preview_of_def)
  next
    case (RecvError e)
    then show ?thesis by (simp add: exit_state_def Let_def preview_of_def)
  next
    case (RecvMessages msgs)
    let ?wm = "write_messages env msgs ?st0"
    from write_messages_store[of env msgs ?st0] obtain cs where
      a: "trace (world (fst ?wm)) = trace (world st) @ StreamRecv (nbatch st) # cs"
      "store_previews (world (fst ?wm)) =
         store_previews (world st) @ map (Pair (TaskID (task st))) (stored_msgs env cs)" by auto
    have a': "store_previews (world (fst ?wm)) =
         store_previews (world st) @
         map (Pair (TaskID (task st))) (stored_msgs env (StreamRecv (nbatch st) # cs))"
      using a(2) by (simp add: preview_of_def)
    show ?thesis
    proof (cases "snd ?wm")
      case True
      then have "recv_loop env (r # rs) st = Return (fst ?wm)"
        using RecvMessages by (simp add: Let_def case_prod_beta)
      then show ?thesis using a(1) a' by (simp add: exit_state_def)
    next
      case False
      then have t2: "task (fst ?wm) = task st"
        using write_messages_task_next[of env msgs ?st0] by simp
      show ?thesis
      proof (cases "fails env (ZwFlush (nbatch st))")
        case (Some e)
        then have "recv_loop env (r # rs) st =
            Return ((fst ?wm)\<lparr>task := (task (fst ?wm))\<lparr>Error := e\<rparr>,
                              world := called (ZwFlush (nbatch st)) (world (fst ?wm))\<rparr>)"
          using RecvMessages False by (simp add: Let_def case_prod_beta zw_Flush_def)
        then show ?thesis using a(1) a' by (simp add: exit_state_def preview_of_def)
      next
        case None
        let ?st2 = "(fst ?wm)\<lparr>world := called (ZwFlush (nbatch st)) (world (fst ?wm)),
                                 nbatch := Suc (nbatch st)\<rparr>"
        have step: "recv_loop env (r # rs) st = recv_loop env rs ?st2"
          using RecvMessages False None by (simp add: Let_def case_prod_beta)
        from Cons.IH[of ?st2] obtain ds where b:
          "trace (world (exit_state (recv_loop env rs ?st2))) = trace (world ?st2) @ ds"
          "store_previews (world (exit_state (recv_loop env rs ?st2))) =
             store_previews (world ?st2) @ map (Pair (TaskID (task ?st2))) (stored_msgs env ds)"
          by blast
        have "trace (world (exit_state (recv_loop env rs ?st2))) =
                trace (world st) @ (StreamRecv (nbatch st) # cs @ [ZwFlush (nbatch st)] @ ds)"
          using a(1) b(1) by simp
        moreover have "store_previews (world (exit_state (recv_loop env rs ?st2))) =
            store_previews (world st) @ map (Pair (TaskID (task st)))
              (stored_msgs env (StreamRecv (nbatch st) # cs @ [ZwFlush (nbatch st)] @ ds))"
          using a(2) b(2) t2 by (simp add: preview_of_def)
        ultimately show ?thesis unfolding step by blast
      qed
    qed
  qed
qed

lemma loop_calls_store:
  "store_previews (world (exit_state (recv_loop env rs st))) =
     store_previews (world st) @
     map (Pair (TaskID (task st))) (stored_msgs env (loop_calls env rs st))"
  using recv_loop_store[of env rs st] by (auto simp add: loop_calls_def)

lemma close_store_previews:
  "store_previews (snd (close env t w)) =
     (if Error t \<noteq> [] \<and> (SavedPath t = [] \<or> fails env (OsRemoveAll (SavedPath t)) = None) \<and>
         fails env (DbCleanPreview (TaskID t)) = None
      then filter (\<lambda>row. fst row \<noteq> TaskID t) (store_previews w) else store_previews w)"
  by (simp add: close_world)

lemma preview_rows_filter_le:
  "length (map snd (filter (\<lambda>row. fst row = tid) (filter P s))) \<le>
   length (map snd (filter (\<lambda>row. fst row = tid) s))"
  by (induction s) simp_all

lemma close_rows_le:
  "length (preview_rows tid (snd (close env t w))) \<le> length (preview_rows tid w)"
  unfolding preview_rows_def close_store_previews
  using preview_rows_filter_le[of tid "\<lambda>row. fst row \<noteq> TaskID t" "store_previews w"]
  by simp

lemma returns_rows:
  "length (preview_rows tid (world_of (returns env ds t w))) \<le> length (preview_rows tid w)"
  "Error t = [] \<Longrightarrow> store_previews (world_of (returns env ds t w)) = store_previews w"
proof -
  have "preview_rows tid (run_deferred env ds w) = preview_rows tid w"
    by (simp add: preview_rows_def)
  then show "length (preview_rows tid (world_of (returns env ds t w))) \<le> length (preview_rows tid w)"
    using close_rows_le[of tid env t "run_deferred env ds w"] by simp
  show "store_previews (world_of (returns env ds t w)) = store_previews w" if "Error t = []"
    using that by (simp add: close_store_previews)
qed


lemma logs_write_messages_store:
  "\<exists>cs. trace (lworld (fst (logs_write_messages env msgs st))) = trace (lworld st) @ cs \<and>
        store_previews (lworld (fst (logs_write_messages env msgs st))) =
          store_previews (lworld st) @ map (Pair (id' (ltask st))) (stored_msgs env cs) \<and>
        id' (ltask (fst (logs_write_messages env msgs st))) = id' (ltask st) \<and>
        zw' (ltask (fst (logs_write_messages env msgs st))) = zw' (ltask st)"
proof (induction msgs arbitrary: st)
  case Nil
  show ?case by simp
next
  case (Cons msg msgs)
  show ?case
  proof (cases "writer (ltask st)")
    case None
    then have eq: "logs_write_messages env (msg # msgs) st = (st, Panic)" by simp
    show ?thesis unfolding eq by simp
  next
    case (Some p)
    note wp = Some
    show ?thesis
    proof (cases "fails env (WriterWrite (lwritten st) (toLine env msg))")
      case (Some e)
      have eq: "logs_write_messages env (msg # msgs) st =
          (st\<lparr>ltask := (ltask st)\<lparr>err := Some e\<rparr>,
              lworld := fst (writer_Write env (lwritten st) p (toLine env msg) (lworld st))\<rparr>, Ret)"
        using wp Some by (simp add: Let_def case_prod_beta)
      show ?thesis unfolding eq by (simp add: preview_of_def)
    next
      case wr: None
      define st1 where "st1 = st\<lparr>lworld := fst (writer_Write env (lwritten st) p (toLine env msg) (lworld st)),
                                lwritten := Suc (lwritten st)\<rparr>"
      have t1: "trace (lworld st1) = trace (lworld st) @ [WriterWrite (lwritten st) (toLine env msg)]"
        "store_previews (lworld st1) = store_previews (lworld st)" "ltask st1 = ltask st"
        by (simp_all add: st1_def)
      let ?ins = "db_insertLineToPreview env (lcount st1) (id' (ltask st1)) msg (lworld st1)"
      show ?thesis
      proof (cases "lcount st1 < logs_PreviewLogLinesLimit")
        case False
        have step: "logs_write_messages env (msg # msgs) st = logs_write_messages env msgs st1"
          using wp wr False by (simp add: Let_def case_prod_beta st1_def)
        from Cons.IH[of st1] obtain ds where
          "trace (lworld (fst (logs_write_messages env msgs st1))) = trace (lworld st1) @ ds"
          "store_previews (lworld (fst (logs_write_messages env msgs st1))) =
             store_previews (lworld st1) @ map (Pair (id' (ltask st1))) (stored_msgs env ds)"
          "id' (ltask (fst (logs_write_messages env msgs st1))) = id' (ltask st1)"
          "zw' (ltask (fst (logs_write_messages env msgs st1))) = zw' (ltask st1)"
          by blast
        then show ?thesis unfolding step using t1 by (simp add: preview_of_def)
      next
        case True
        show ?thesis
        proof (cases "fails env (DbInsertLineToPreview (lcount st1) (id' (ltask st1)) msg)")
          case (Some e)
          have eq: "logs_write_messages env (msg # msgs) st =
                  (st1\<lparr>ltask := (ltask st1)\<lparr>err := Some e\<rparr>, lworld := fst ?ins\<rparr>, Ret)"
            using wp wr True Some by (simp add: Let_def case_prod_beta st1_def)
          show ?thesis unfolding eq using t1 Some by (simp add: preview_of_def)
        next
          case None
          define st2 where "st2 = st1\<lparr>lworld := fst ?ins, lcount := Suc (lcount st1)\<rparr>"
          have step: "logs_write_messages env (msg # msgs) st = logs_write_messages env msgs st2"
            using wp wr True None by (simp add: Let_def case_prod_beta st1_def st2_def)
          have t2: "trace (lworld st2) = trace (lworld st) @
              [WriterWrite (lwritten st) (toLine env msg),
               DbInsertLineToPreview (lcount st1) (id' (ltask st1)) msg]"
            "store_previews (lworld st2) = store_previews (lworld st) @ [(id' (ltask st), msg)]"
            "ltask st2 = ltask st"
            using t1 None by (simp_all add: st2_def)
          from Cons.IH[of st2] obtain ds where
            "trace (lworld (fst (logs_write_messages env msgs st2))) = trace (lworld st2) @ ds"
            "store_previews (lworld (fst (logs_write_messages env msgs st2))) =
               store_previews (lworld st2) @ map (Pair (id' (ltask st2))) (stored_msgs env ds)"
            "id' (ltask (fst (logs_write_messages env msgs st2))) = id' (ltask st2)"
            "zw' (ltask (fst (logs_write_messages env msgs st2))) = zw' (ltask st2)"
            by blast
          then show ?thesis unfolding step using t2 None by (simp add: preview_of_def)
        qed
      qed
    qed
  qed
qed

lemma logs_recv_loop_store:
  "\<exists>cs. trace (lworld (logs_exit_state (logs_recv_loop env rs st))) = trace (lworld st) @ cs \<and>
        store_previews (lworld (logs_exit_state (logs_recv_loop env rs st))) =
          store_previews (lworld st) @ map (Pair (id' (ltask st))) (stored_msgs env cs)"
proof (induction rs arbitrary: st)
  case Nil
  show ?case by (simp add: logs_exit_state_def)
next
  case (Cons r rs)
  let ?st0 = "st\<lparr>lworld := called (StreamRecv (lbatch st)) (lworld st)\<rparr>"
  show ?case
  proof (cases r)
    case RecvEOF
    then show ?thesis by (simp add: logs_exit_state_def Let_def preview_of_def)
  next
    case (RecvError e)
    then show ?thesis by (simp add: logs_exit_state_def Let_def preview_of_def)
  next
    case (RecvMessages msgs)
    let ?wm = "logs_write_messages env msgs ?st0"
    from logs_write_messages_store[of env msgs ?st0] obtain cs where
      a: "trace (lworld (fst ?wm)) = trace (lworld st) @ StreamRecv (lbatch st) # cs"
      "store_previews (lworld (fst ?wm)) =
         store_previews (lworld st) @
         map (Pair (id' (ltask st))) (stored_msgs env (StreamRecv (lbatch st) # cs))"
      "id' (ltask (fst ?wm)) = id' (ltask st)"
      by (auto simp add: preview_of_def)
    show ?thesis
    proof (cases "snd ?wm = Next \<and> zw' (ltask (fst ?wm)) \<noteq> None \<and>
                  fails env (ZwFlush (lbatch (fst ?wm))) = None")
      case True
      define st2 where "st2 = (fst ?wm)\<lparr>lworld := called (ZwFlush (lbatch (fst ?wm))) (lworld (fst ?wm)),
                                 lbatch := Suc (lbatch (fst ?wm))\<rparr>"
      have step: "logs_recv_loop env (r # rs) st = logs_recv_loop env rs st2"
        using RecvMessages True by (auto simp add: Let_def case_prod_beta st2_def)
      from Cons.IH[of st2] obtain ds where
        b: "trace (lworld (logs_exit_state (logs_recv_loop env rs st2))) = trace (lworld st2) @ ds"
        "store_previews (lworld (logs_exit_state (logs_recv_loop env rs st2))) =
           store_previews (lworld st2) @ map (Pair (id' (ltask st2))) (stored_msgs env ds)"
        by blast
      have "trace (lworld (logs_exit_state (logs_recv_loop env rs st2))) =
              trace (lworld st) @
              (StreamRecv (lbatch st) # cs @ [ZwFlush (lbatch (fst ?wm))] @ ds)"
        using a(1) b(1) by (simp add: st2_def)
      moreover have "store_previews (lworld (logs_exit_state (logs_recv_loop env rs st2))) =
          store_previews (lworld st) @ map (Pair (id' (ltask st)))
            (stored_msgs env (StreamRecv (lbatch st) # cs @ [ZwFlush (lbatch (fst ?wm))] @ ds))"
        using a(2,3) b(2) by (simp add: st2_def preview_of_def)
      ultimately show ?thesis unfolding step by blast
    next
      case False
      then have "\<exists>x. logs_exit_state (logs_recv_loop env (r # rs) st) = x \<and>
           store_previews (lworld x) = store_previews (lworld (fst ?wm)) \<and>
           (trace (lworld x) = trace (lworld (fst ?wm)) \<or>
            trace (lworld x) = trace (lworld (fst ?wm)) @ [ZwFlush (lbatch (fst ?wm))])"
        using RecvMessages
        by (auto simp add: Let_def case_prod_beta logs_exit_state_def
            split: flow.splits option.splits)
      then obtain x where x: "logs_exit_state (logs_recv_loop env (r # rs) st) = x"
        "store_previews (lworld x) = store_previews (lworld (fst ?wm))"
        "trace (lworld x) = trace (lworld (fst ?wm)) \<or>
         trace (lworld x) = trace (lworld (fst ?wm)) @ [ZwFlush (lbatch (fst ?wm))]" by blast
      from x(3) show ?thesis
      proof
        assume "trace (lworld x) = trace (lworld (fst ?wm))"
        then show ?thesis unfolding x(1) using a(1,2) x(2) by simp
      next
        assume "trace (lworld x) = trace (lworld (fst ?wm)) @ [ZwFlush (lbatch (fst ?wm))]"
        then have "trace (lworld x) =
            trace (lworld st) @ (StreamRecv (lbatch st) # cs @ [ZwFlush (lbatch (fst ?wm))])"
          using a(1) by simp
        moreover have "store_previews (lworld x) =
            store_previews (lworld st) @ map (Pair (id' (ltask st)))
              (stored_msgs env (StreamRecv (lbatch st) # cs @ [ZwFlush (lbatch (fst ?wm))]))"
          using a(2) x(2) by (simp add: preview_of_def)
        ultimately show ?thesis unfolding x(1) by blast
      qed
    qed
  qed
qed

lemma logs_loop_calls_store:
  "store_previews (lworld (logs_exit_state (logs_recv_loop env rs st))) =
     store_previews (lworld st) @
     map (Pair (id' (ltask st))) (stored_msgs env (logs_loop_calls env rs st))"
  using logs_recv_loop_store[of env rs st] by (auto simp add: logs_loop_calls_def)

lemma logs_write_messages_ok:
  assumes "io_ok env" and "preview_ok env" and "writer (ltask st) \<noteq> None"
  shows "snd (logs_write_messages env msgs st) = Next \<and>
         lwritten (fst (logs_write_messages env msgs st)) = lwritten st + length msgs \<and>
         ltask (fst (logs_write_messages env msgs st)) = ltask st"
  using assms(3)
proof (induction msgs arbitrary: st)
  case Nil
  show ?case by simp
next
  case (Cons msg msgs)
  from Cons.prems obtain p where wp: "writer (ltask st) = Some p" by blast
  have wr: "fails env (WriterWrite (lwritten st) (toLine env msg)) = None"
    using assms(1) by (simp add: io_ok_def)
  define st1 where "st1 = st\<lparr>lworld := fst (writer_Write env (lwritten st) p (toLine env msg) (lworld st)),
                                lwritten := Suc (lwritten st)\<rparr>"
  let ?ins = "db_insertLineToPreview env (lcount st1) (id' (ltask st1)) msg (lworld st1)"
  have ins: "fails env (DbInsertLineToPreview (lcount st1) (id' (ltask st1)) msg) = None"
    using assms(2) by (simp add: preview_ok_def)
  define st2 where "st2 = (if lcount st1 < logs_PreviewLogLinesLimit
      then st1\<lparr>lworld := fst ?ins, lcount := Suc (lcount st1)\<rparr> else st1)"
  have step: "logs_write_messages env (msg # msgs) st = logs_write_messages env msgs st2"
    using wp wr ins by (simp add: Let_def case_prod_beta st1_def st2_def)
  have f: "ltask st2 = ltask st" "lwritten st2 = Suc (lwritten st)"
    by (simp_all add: st2_def st1_def)
  have "writer (ltask st2) \<noteq> None" using Cons.prems f by simp
  from Cons.IH[OF this] show ?case unfolding step by (simp add: f)
qed

lemma run_setup_failed_form:
  assumes "\<not> (connect_ok env t \<and> sink_ok env t)"
  shows "\<exists>ds t1 w1. run env t w = returns env ds t1 w1 \<and> store_previews w1 = store_previews w"
proof (cases "fails env (GrpcDial (address (Component t)))")
  case (Some e)
  from run_dial_fails[OF Some, of w] show ?thesis
    by (metis called_proj(4))
next
  case d: None
  show ?thesis
  proof (cases "fails env (SearchLog (Request t))")
    case (Some e)
    from run_open_fails[OF d Some, of w] show ?thesis by (metis after_store(1))
  next
    case s: None
    have c: "connect_ok env t" using d s by (simp add: connect_ok_def)
    show ?thesis
    proof (cases "fails env (OsMkdirAll (dir_of env t))")
      case (Some e)
      from run_mkdir_fails[OF c Some, of w] show ?thesis by (metis after_store(2))
    next
      case m: None
      show ?thesis
      proof (cases "fails env (OsCreate (savedPath_of env t))")
        case (Some e)
        from run_create_fails[OF c m Some, of w] show ?thesis by (metis after_store(3))
      next
        case f: None
        from assms c m f obtain e where
          z: "fails env (ZwCreate (savedPath_of env t) (logFilename (Component t))) = Some e"
          by (auto simp add: sink_ok_def)
        from run_zip_fails[OF c m f z, of w] show ?thesis by (metis after_store(4))
      qed
    qed
  qed
qed

lemma run_receive_rows:
  "Error (task_of (run_receive env rs st)) = [] \<Longrightarrow>
   store_previews (world_of (run_receive env rs st)) =
     store_previews (world (exit_state (recv_loop env rs st)))"
  "length (preview_rows tid (world_of (run_receive env rs st))) \<le>
   length (preview_rows tid (world (exit_state (recv_loop env rs st))))"
proof -
  show "store_previews (world_of (run_receive env rs st)) =
     store_previews (world (exit_state (recv_loop env rs st)))"
    if "Error (task_of (run_receive env rs st)) = []"
  proof (cases "recv_loop env rs st")
    case (Blocked st')
    then show ?thesis by (simp add: run_receive_def world_of_def exit_state_def)
  next
    case (Return st')
    then have "Error (task st') = []" using that by (simp add: run_receive_def close_task)
    from returns_rows(2)[OF this] show ?thesis using Return
      by (simp add: run_receive_def exit_state_def)
  qed
  show "length (preview_rows tid (world_of (run_receive env rs st))) \<le>
   length (preview_rows tid (world (exit_state (recv_loop env rs st))))"
  proof (cases "recv_loop env rs st")
    case (Blocked st')
    then show ?thesis by (simp add: run_receive_def world_of_def exit_state_def)
  next
    case (Return st')
    then show ?thesis
      using returns_rows(1)[of tid env "[ZwClose (zw st'), FClose (zw st'), ConnClose]"
          "task st'" "world st'"]
      by (simp add: run_receive_def exit_state_def)
  qed
qed

lemma run_calls_stored:
  "connect_ok env t \<Longrightarrow> sink_ok env t \<Longrightarrow>
   stored_msgs env (run_calls env t w) =
     stored_msgs env (loop_calls env (stream env) (loop_start env t w))"
  "\<not> (connect_ok env t \<and> sink_ok env t) \<Longrightarrow> stored_msgs env (run_calls env t w) = []"
proof -
  show "stored_msgs env (run_calls env t w) =
     stored_msgs env (loop_calls env (stream env) (loop_start env t w))"
    if "connect_ok env t" "sink_ok env t"
  proof -
    have "stored_msgs env (setup_calls env t) = []"
      and "stored_msgs env (tail_calls env (stream env) (loop_start env t w)) = []"
      using quiet_tail_calls[of env "stream env" "loop_start env t w"]
      by (simp_all add: stored_msgs_none quiet_def)
    then show ?thesis using that
      by (simp add: run_calls_def run_calls_loop preview_of_def)
  qed
  show "stored_msgs env (run_calls env t w) = []" if "\<not> (connect_ok env t \<and> sink_ok env t)"
  proof -
    from run_calls_setup_failed[OF that, of w] obtain cs where
      "run_calls env t w = setup_calls env t @ cs" "quiet env cs"
      unfolding run_calls_def by blast
    then show ?thesis by (simp add: stored_msgs_none quiet_def)
  qed
qed

lemma run_rows:
  assumes "Error (task_of (run env t w)) = []"
  shows "preview_rows (TaskID t) (world_of (run env t w)) =
           preview_rows (TaskID t) w @ stored_msgs env (run_calls env t w)"
proof (cases "connect_ok env t \<and> sink_ok env t")
  case False
  from run_setup_failed_form[OF False, of w] obtain ds t1 w1 where
    r: "run env t w = returns env ds t1 w1" and s: "store_previews w1 = store_previews w" by blast
  have "Error t1 = []" using assms unfolding r by (simp add: close_task)
  from returns_rows(2)[OF this, of env ds w1]
  have "store_previews (world_of (run env t w)) = store_previews w" unfolding r using s by simp
  then show ?thesis using run_calls_stored(2)[OF False, of w] by (simp add: preview_rows_def)
next
  case True
  let ?st = "loop_start env t w"
  have r: "run env t w = run_receive env (stream env) ?st"
    using True by (simp add: run_reaches_loop)
  have "store_previews (world_of (run env t w)) =
      store_previews w @ map (Pair (TaskID t)) (stored_msgs env (loop_calls env (stream env) ?st))"
    using run_receive_rows(1)[of env "stream env" ?st] assms loop_calls_store[of env "stream env" ?st]
    unfolding r by simp
  from preview_rows_append[OF this] show ?thesis
    using run_calls_stored(1)[of env t w] True by simp
qed

lemma run_rows_le:
  "length (preview_rows (TaskID t) (world_of (run env t w))) \<le>
   length (preview_rows (TaskID t) w) + PreviewLogLinesLimit"
proof (cases "connect_ok env t \<and> sink_ok env t")
  case False
  from run_setup_failed_form[OF False, of w] obtain ds t1 w1 where
    r: "run env t w = returns env ds t1 w1" and s: "store_previews w1 = store_previews w" by blast
  have "preview_rows (TaskID t) w1 = preview_rows (TaskID t) w" using s by (simp add: preview_rows_def)
  then show ?thesis unfolding r using returns_rows(1)[of "TaskID t" env ds t1 w1] by simp
next
  case True
  let ?st = "loop_start env t w"
  let ?lc = "loop_calls env (stream env) ?st"
  have r: "run env t w = run_receive env (stream env) ?st"
    using True by (simp add: run_reaches_loop)
  have "store_previews (world (exit_state (recv_loop env (stream env) ?st))) =
      store_previews w @ map (Pair (TaskID t)) (stored_msgs env ?lc)"
    using loop_calls_store[of env "stream env" ?st] by simp
  from preview_rows_append[OF this]
  have e: "length (preview_rows (TaskID t) (world (exit_state (recv_loop env (stream env) ?st)))) =
      length (preview_rows (TaskID t) w) + length (stored_msgs env ?lc)" by simp
  have "length (stored_msgs env ?lc) \<le> PreviewLogLinesLimit"
    using stored_msgs_le[of env ?lc] pinv_facts(1)[OF loop_calls_pinv[of env "stream env" t w]]
    by simp
  then show ?thesis
    unfolding r using run_receive_rows(2)[of "TaskID t" env "stream env" ?st] e by simp
qed

lemma logs_after_store [simp]:
  "store_previews (logs_after_connect env t w) = store_previews w"
  "store_previews (logs_after_mkdir env t w) = store_previews w"
  "store_previews (logs_after_create env t w) = store_previews w"
  "store_previews (logs_after_zip env t w) = store_previews w"
  "store_previews (logs_after_start env t w) = store_previews w"
  by (simp_all add: logs_after_connect_def logs_after_mkdir_def logs_after_create_def
      logs_after_zip_def logs_after_start_def)

lemma logs_run_failed_store:
  assumes "\<not> (logs_connect_ok env t \<and> logs_sink_ok env t \<and> logs_start_ok env t)"
  shows "store_previews (logs_world_of (logs_run env t w)) = store_previews w"
proof (cases "fails env (GrpcDial (logs_address t))")
  case (Some e)
  then show ?thesis by (simp add: logs_run_dial_fails)
next
  case d: None
  show ?thesis
  proof (cases "fails env (SearchLog (req t))")
    case (Some e)
    then show ?thesis using d by (simp add: logs_run_open_fails)
  next
    case s: None
    have c: "logs_connect_ok env t" using d s by (simp add: logs_connect_ok_def)
    show ?thesis
    proof (cases "fails env (OsMkdirAll (logs_dir_of env t))")
      case (Some e)
      then show ?thesis by (simp add: logs_run_mkdir_fails[OF c])
    next
      case m: None
      show ?thesis
      proof (cases "fails env (OsCreate (logs_savedPath_of env t))")
        case (Some e)
        then show ?thesis using m by (simp add: logs_run_create_fails[OF c])
      next
        case f: None
        show ?thesis
        proof (cases "fails env (ZwCreate (logs_savedPath_of env t) (logs_logFilename t))")
          case (Some e)
          then show ?thesis using m f by (simp add: logs_run_zip_fails[OF c])
        next
          case z: None
          have k: "logs_sink_ok env t" using m f z by (simp add: logs_sink_ok_def)
          with assms c obtain e where
            "fails env (DbStartTask (id' t) (logs_savedPath_of env t) (taskGroupID t)) = Some e"
            by (auto simp add: logs_start_ok_def)
          then show ?thesis by (simp add: logs_run_start_fails[OF c k])
        qed
      qed
    qed
  qed
qed

lemma logs_run_receive_store:
  "store_previews (logs_world_of (logs_run_receive env f rs st)) =
     store_previews (lworld (logs_exit_state (logs_recv_loop env rs st)))"
  by (cases "logs_recv_loop env rs st")
     (simp_all add: logs_run_receive_def logs_exit_state_def logs_world_of_def logs_returns_def
        logs_panics_def)

lemma logs_running_task_proj [simp]:
  "id' (logs_running_task env t) = id' t"
  "zw' (logs_running_task env t) = zw' t"
  "writer (logs_running_task env t) = Some (logs_savedPath_of env t)"
  by (simp_all add: logs_running_task_def)

lemma logs_run_calls_stored:
  "logs_connect_ok env t \<Longrightarrow> logs_sink_ok env t \<Longrightarrow> logs_start_ok env t \<Longrightarrow>
   stored_msgs env (logs_run_calls env t w) =
     stored_msgs env (logs_loop_calls env (stream env) (logs_loop_start env t w))"
  "\<not> (logs_connect_ok env t \<and> logs_sink_ok env t \<and> logs_start_ok env t) \<Longrightarrow>
   stored_msgs env (logs_run_calls env t w) = []"
proof -
  show "stored_msgs env (logs_run_calls env t w) =
     stored_msgs env (logs_loop_calls env (stream env) (logs_loop_start env t w))"
    if "logs_connect_ok env t" "logs_sink_ok env t" "logs_start_ok env t"
  proof -
    have "stored_msgs env (logs_setup_calls env t) = []"
      and "stored_msgs env (logs_tail_calls env (logs_savedPath_of env t) (stream env)
             (logs_loop_start env t w)) = []"
      using quiet_logs_tail_calls[of env "logs_savedPath_of env t" "stream env"
          "logs_loop_start env t w"]
      by (simp_all add: stored_msgs_none quiet_def)
    then show ?thesis using that
      by (simp add: logs_run_calls_def logs_run_calls_loop preview_of_def)
  qed
  show "stored_msgs env (logs_run_calls env t w) = []"
    if "\<not> (logs_connect_ok env t \<and> logs_sink_ok env t \<and> logs_start_ok env t)"
  proof -
    from that have "\<exists>cs. new_calls w (logs_world_of (logs_run env t w)) =
        logs_setup_calls env t @ cs \<and> quiet env cs"
      using logs_run_calls_setup_failed[of env t w] logs_run_calls_start_failed[of env t w]
      by blast
    then obtain cs where "logs_run_calls env t w = logs_setup_calls env t @ cs" "quiet env cs"
      unfolding logs_run_calls_def by blast
    then show ?thesis by (simp add: stored_msgs_none quiet_def)
  qed
qed

lemma logs_run_rows:
  "preview_rows (id' t) (logs_world_of (logs_run env t w)) =
     preview_rows (id' t) w @ stored_msgs env (logs_run_calls env t w)"
proof (cases "logs_connect_ok env t \<and> logs_sink_ok env t \<and> logs_start_ok env t")
  case False
  then show ?thesis
    using logs_run_failed_store[OF False, of w] logs_run_calls_stored(2)[OF False, of w]
    by (simp add: preview_rows_def)
next
  case True
  let ?st = "logs_loop_start env t w"
  have r: "logs_run env t w = logs_run_receive env (logs_savedPath_of env t) (stream env) ?st"
    using True by (simp add: logs_run_reaches_loop)
  have "store_previews (logs_world_of (logs_run env t w)) =
      store_previews w @
      map (Pair (id' t)) (stored_msgs env (logs_loop_calls env (stream env) ?st))"
    unfolding r logs_run_receive_store
    using logs_loop_calls_store[of env "stream env" ?st] by simp
  from preview_rows_append[OF this] show ?thesis
    using logs_run_calls_stored(1)[of env t w] True by simp
qed

lemma logs_recv_loop_first_batch:
  assumes "io_ok env" and "preview_ok env" and "writer (ltask st) \<noteq> None"
    and "zw' (ltask st) = None"
  shows "lwritten (logs_exit_state (logs_recv_loop env (RecvMessages b # rest) st)) =
           lwritten st + length b"
proof -
  let ?st0 = "st\<lparr>lworld := called (StreamRecv (lbatch st)) (lworld st)\<rparr>"
  let ?wm = "logs_write_messages env b ?st0"
  have wn: "writer (ltask ?st0) \<noteq> None" using assms(3) by simp
  note ok = logs_write_messages_ok[OF assms(1,2) wn, of b]
  have z: "zw' (ltask (fst ?wm)) = None" using ok assms(4) by simp
  have eq: "logs_recv_loop env (RecvMessages b # rest) st = LPanic (fst ?wm)"
    using ok z by (simp add: Let_def case_prod_beta)
  show ?thesis unfolding eq using ok by (simp add: logs_exit_state_def)
qed

lemma logs_first_batch:
  assumes "logs_connect_ok env t" and "logs_sink_ok env t" and "logs_start_ok env t"
    and "io_ok env" and "preview_ok env" and "zw' t = None"
    and "stream env = RecvMessages b # rest"
  shows "written_ok env (logs_run_calls env t w) = map (toLine env) b"
    and "preview_msgs (logs_run_calls env t w) = take logs_PreviewLogLinesLimit b"
proof -
  let ?st = "logs_loop_start env t w"
  have "lwritten (logs_exit_state (logs_recv_loop env (RecvMessages b # rest) ?st)) =
      lwritten ?st + length b"
    by (rule logs_recv_loop_first_batch[OF assms(4,5)]) (simp_all add: assms(6))
  then have nw: "lwritten (logs_exit_state (logs_recv_loop env (stream env) ?st)) = length b"
    unfolding assms(7) by simp
  note p = logs_loop_calls_pinv[of env "stream env" t w, unfolded nw]
  have lw: "written_ok env (logs_loop_calls env (stream env) ?st) = map (toLine env) b"
    and lp: "preview_msgs (logs_loop_calls env (stream env) ?st) = take logs_PreviewLogLinesLimit b"
    using p unfolding assms(7) by (simp_all add: pinv_def min_def)
  have q: "quiet env (logs_tail_calls env (logs_savedPath_of env t) (stream env) ?st)"
    by simp
  show "written_ok env (logs_run_calls env t w) = map (toLine env) b"
    using lw q assms(1-3)
    by (simp add: logs_run_calls_def logs_run_calls_loop quiet_def line_of_def)
  show "preview_msgs (logs_run_calls env t w) = take logs_PreviewLogLinesLimit b"
    using lp q assms(1-3)
    by (simp add: logs_run_calls_def logs_run_calls_loop quiet_def preview_of_def)
qed

lemma fold_add_line:
  "fold add_line ls (Some (ZipFile [(n, l0)] c)) = Some (ZipFile [(n, l0 @ ls)] c)"
  by (induction ls arbitrary: l0) (simp_all add: add_line_def)

lemma write_messages_fs:
  "\<exists>cs. trace (world (fst (write_messages env msgs st))) = trace (world st) @ cs \<and>
        fs (world (fst (write_messages env msgs st))) (zw st) =
          fold add_line (written_ok env cs) (fs (world st) (zw st))"
proof (induction msgs arbitrary: st)
  case Nil
  show ?case by simp
next
  case (Cons msg msgs)
  show ?case
  proof (cases "fails env (WriterWrite (nwritten st) (toLine env msg))")
    case (Some e)
    then show ?thesis by (simp add: Let_def case_prod_beta line_of_def)
  next
    case None
    define st1 where "st1 = st\<lparr>world := fst (writer_Write env (nwritten st) (zw st) (toLine env msg) (world st)),
                              nwritten := Suc (nwritten st)\<rparr>"
    define st2 where "st2 = (if previewLogLinesCount st1 < PreviewLogLinesLimit
                      then st1\<lparr>world := dbClient_newPreview env (previewLogLinesCount st1)
                                          (TaskID (task st1)) msg (world st1),
                               previewLogLinesCount := Suc (previewLogLinesCount st1)\<rparr>
                      else st1)"
    have step: "write_messages env (msg # msgs) st = write_messages env msgs st2"
      using None by (simp add: Let_def case_prod_beta st1_def st2_def)
    have "\<exists>cs. trace (world st2) = trace (world st) @ cs \<and>
            written_ok env cs = [toLine env msg]"
      using None by (simp add: st2_def st1_def line_of_def)
    then obtain cs where a: "trace (world st2) = trace (world st) @ cs"
      "written_ok env cs = [toLine env msg]" by blast
    have f2: "fs (world st2) (zw st) = add_line (toLine env msg) (fs (world st) (zw st))"
      and z2: "zw st2 = zw st"
      using None by (simp_all add: st2_def st1_def)
    from Cons.IH[of st2] obtain ds where b:
      "trace (world (fst (write_messages env msgs st2))) = trace (world st2) @ ds"
      "fs (world (fst (write_messages env msgs st2))) (zw st2) =
         fold add_line (written_ok env ds) (fs (world st2) (zw st2))" by blast
    have "trace (world (fst (write_messages env msgs st2))) = trace (world st) @ (cs @ ds)"
      using a(1) b(1) by simp
    moreover have "fs (world (fst (write_messages env msgs st2))) (zw st) =
        fold add_line (written_ok env (cs @ ds)) (fs (world st) (zw st))"
      using b(2) a(2) f2 z2 by simp
    ultimately show ?thesis unfolding step by blast
  qed
qed

lemma recv_loop_fs:
  "\<exists>cs. trace (world (exit_state (recv_loop env rs st))) = trace (world st) @ cs \<and>
        fs (world (exit_state (recv_loop env rs st))) (zw st) =
          fold add_line (written_ok env cs) (fs (world st) (zw st))"
proof (induction rs arbitrary: st)
  case Nil
  show ?case by (simp add: exit_state_def)
next
  case (Cons r rs)
  let ?st0 = "st\<lparr>world := called (StreamRecv (nbatch st)) (world st)\<rparr>"
  show ?case
  proof (cases r)
    case RecvEOF
    then show ?thesis by (simp add: exit_state_def Let_def line_of_def)
  next
    case (RecvError e)
    then show ?thesis by (simp add: exit_state_def Let_def line_of_def)
  next
    case (RecvMessages msgs)
    let ?wm = "write_messages env msgs ?st0"
    from write_messages_fs[of env msgs ?st0] obtain cs where
      a: "trace (world (fst ?wm)) = trace (world st) @ StreamRecv (nbatch st) # cs"
      "fs (world (fst ?wm)) (zw st) = fold add_line (written_ok env cs) (fs (world st) (zw st))"
      by auto
    have a': "fs (world (fst ?wm)) (zw st) =
        fold add_line (written_ok env (StreamRecv (nbatch st) # cs)) (fs (world st) (zw st))"
      using a(2) by (simp add: line_of_def)
    show ?thesis
    proof (cases "snd ?wm")
      case True
      then have "recv_loop env (r # rs) st = Return (fst ?wm)"
        using RecvMessages by (simp add: Let_def case_prod_beta)
      then show ?thesis using a(1) a' by (simp add: exit_state_def)
    next
      case False
      show ?thesis
      proof (cases "fails env (ZwFlush (nbatch st))")
        case (Some e)
        then have "recv_loop env (r # rs) st =
            Return ((fst ?wm)\<lparr>task := (task (fst ?wm))\<lparr>Error := e\<rparr>,
                              world := called (ZwFlush (nbatch st)) (world (fst ?wm))\<rparr>)"
          using RecvMessages False by (simp add: Let_def case_prod_beta zw_Flush_def)
        moreover have "fs (world (fst ?wm)) (zw st) =
            fold add_line (written_ok env (StreamRecv (nbatch st) # cs @ [ZwFlush (nbatch st)]))
              (fs (world st) (zw st))"
          using a(2) by (simp add: line_of_def)
        ultimately show ?thesis using a(1) by (simp add: exit_state_def)
      next
        case None
        let ?st2 = "(fst ?wm)\<lparr>world := called (ZwFlush (nbatch st)) (world (fst ?wm)),
                                 nbatch := Suc (nbatch st)\<rparr>"
        have step: "recv_loop env (r # rs) st = recv_loop env rs ?st2"
          using RecvMessages False None by (simp add: Let_def case_prod_beta)
        from Cons.IH[of ?st2] obtain ds where b:
          "trace (world (exit_state (recv_loop env rs ?st2))) = trace (world ?st2) @ ds"
          "fs (world (exit_state (recv_loop env rs ?st2))) (zw ?st2) =
             fold add_line (written_ok env ds) (fs (world ?st2) (zw ?st2))"
          by blast
        have "trace (world (exit_state (recv_loop env rs ?st2))) =
                trace (world st) @ (StreamRecv (nbatch st) # cs @ [ZwFlush (nbatch st)] @ ds)"
          using a(1) b(1) by simp
        moreover have "fs (world (exit_state (recv_loop env rs ?st2))) (zw st) =
            fold add_line
              (written_ok env (StreamRecv (nbatch st) # cs @ [ZwFlush (nbatch st)] @ ds))
              (fs (world st) (zw st))"
          using a(2) b(2) by (simp add: line_of_def)
        ultimately show ?thesis unfolding step by blast
      qed
    qed
  qed
qed

lemma loop_calls_fs:
  "fs (world (exit_state (recv_loop env rs st))) (zw st) =
     fold add_line (written_ok env (loop_calls env rs st)) (fs (world st) (zw st))"
  using recv_loop_fs[of env rs st] by (auto simp add: loop_calls_def)

lemma run_calls_written:
  "connect_ok env t \<Longrightarrow> sink_ok env t \<Longrightarrow>
   written_ok env (run_calls env t w) =
     written_ok env (loop_calls env (stream env) (loop_start env t w))"
  using quiet_tail_calls[of env "stream env" "loop_start env t w"]
  by (simp add: run_calls_def run_calls_loop quiet_def line_of_def)

lemma run_archive:
  assumes "connect_ok env t" and "sink_ok env t" and "Error (task_of (run env t w)) = []"
  shows "fs (world_of (run env t w)) (savedPath_of env t) =
           Some (ZipFile [(logFilename (Component t), written_ok env (run_calls env t w))]
                   (has_returned (run env t w) \<and>
                    fails env (ZwClose (savedPath_of env t)) = None))"
proof -
  let ?st = "loop_start env t w"
  let ?p = "savedPath_of env t"
  let ?x = "exit_state (recv_loop env (stream env) ?st)"
  have r: "run env t w = run_receive env (stream env) ?st"
    using assms(1,2) by (simp add: run_reaches_loop)
  have fx: "fs (world ?x) ?p =
      Some (ZipFile [(logFilename (Component t), written_ok env (run_calls env t w))] False)"
    using loop_calls_fs[of env "stream env" ?st] after_zip_fs[OF assms(2), of w]
    by (simp add: fold_add_line run_calls_written[OF assms(1,2)])
  show ?thesis
  proof (cases "recv_loop env (stream env) ?st")
    case (Blocked st')
    then show ?thesis unfolding r using fx
      by (simp add: run_receive_def world_of_def exit_state_def has_returned_def)
  next
    case (Return st')
    have z: "zw st' = ?p" using recv_loop_frame(1)[of env "stream env" ?st] Return
      by (simp add: exit_state_def)
    have e: "Error (task st') = []" using assms(3) unfolding r using Return
      by (simp add: run_receive_def close_task)
    have fx': "fs (world st') ?p =
      Some (ZipFile [(logFilename (Component t), written_ok env (run_calls env t w))] False)"
      using fx Return by (simp add: exit_state_def)
    show ?thesis unfolding r using Return z e fx'
      by (simp add: run_receive_def close_world finish_zip_def)
  qed
qed


lemma run_two_messages:
  assumes "connect_ok env t" and "sink_ok env t" and "io_ok env"
    and "stream env = [RecvMessages [m1, m2], RecvEOF]"
  shows "run env t w =
     returns env [ZwClose (savedPath_of env t), FClose (savedPath_of env t), ConnClose]
       (running_task env t)
       (called (StreamRecv 1) (called (ZwFlush 0)
          (dbClient_newPreview env 1 (TaskID t) m2
             (fst (writer_Write env 1 (savedPath_of env t) (toLine env m2)
                (dbClient_newPreview env 0 (TaskID t) m1
                   (fst (writer_Write env 0 (savedPath_of env t) (toLine env m1)
                      (called (StreamRecv 0) (world (loop_start env t w)))))))))))"
proof -
  have w0: "fails env (WriterWrite 0 (toLine env m1)) = None"
    and w1: "fails env (WriterWrite 1 (toLine env m2)) = None"
    and f0: "fails env (ZwFlush 0) = None"
    using assms(3) by (simp_all add: io_ok_def)
  have "recv_loop env [RecvMessages [m1, m2], RecvEOF] (loop_start env t w) =
      Return ((loop_start env t w)
        \<lparr>world := called (StreamRecv 1) (called (ZwFlush 0)
          (dbClient_newPreview env 1 (TaskID t) m2
             (fst (writer_Write env 1 (savedPath_of env t) (toLine env m2)
                (dbClient_newPreview env 0 (TaskID t) m1
                   (fst (writer_Write env 0 (savedPath_of env t) (toLine env m1)
                      (called (StreamRecv 0) (world (loop_start env t w)))))))))),
         nwritten := 2, previewLogLinesCount := 2, nbatch := 1\<rparr>)"
    using w0 w1 f0
    by (simp add: Let_def case_prod_beta PreviewLogLinesLimit_def numeral_2_eq_2)
  then show ?thesis
    using assms(1,2,4) by (simp add: run_reaches_loop run_receive_def)
qed




end
